theory Spec2Isabelle
  imports Complex_Main "HOL-Library.AList"
begin

section \<open>ROUGE scores: a shallow embedding of torchmetrics/functional/text/rouge.py\<close>

text \<open>
  Conventions of the embedding.
  \<^item> A Python \<open>str\<close> is a \<open>string\<close>; the texts considered are ASCII, so \<open>str.lower\<close>
    acts on the letters A to Z only.
  \<^item> The value of a Python \<open>float\<close> and of a 0-dimensional tensor is a real number.
    The operations on them are not part of the module and round: they are the fields
    of the record \<open>float_ops\<close> that every function computing with floats takes as its
    first argument. \<open>exact_ops\<close> is the arithmetic that does not round. The one special
    value that the module can produce from the integers of its scorers, the mean of an
    empty tensor, is the constructor \<open>NaN\<close>.
  \<^item> A \<open>dict\<close> is an association list in insertion order with distinct keys;
    \<open>d[k] = v\<close> is \<open>AList.update k v d\<close> and \<open>d[k]\<close> is \<open>map_of d k\<close>, with
    \<open>KeyError\<close> where the key is missing.
  \<^item> Every exception is a value of the type \<open>error\<close>; a function that can raise
    returns \<open>error + 'a\<close>.
  \<^item> The package \<open>nltk\<close> is not part of the module: whether it is installed (the flag
    \<open>_NLTK_AVAILABLE\<close> that the module imports), its sentence splitter and its Porter
    stemmer are the fields of the record \<open>nltk\<close> that every function using them takes
    as its first argument.
  \<^item> A sequence of strings is a Python list; the window size of ROUGE-N is a natural
    number.
\<close>

subsection \<open>Errors, tensors, keys\<close>

datatype error =
    ModuleNotFoundError string
  | ValueError string "string list"
  | ZeroDivisionError
  | OverflowError
  | IndexError
  | KeyError
  | UnboundLocalError
  | EmptyTensorError

datatype scalar = Num real | NaN

type_synonym score = "(string \<times> scalar) list"

text \<open>An element of \<open>rouge_keys_values\<close>: \<open>Union[int, str]\<close>. The integers are window
  sizes; the table below only holds 1 to 9.\<close>

datatype rouge_key = IntKey nat | StrKey string

record nltk =
  nltk_available :: bool
  sent_tokenize :: "string \<Rightarrow> string list"
  porter_stem :: "string \<Rightarrow> string"

text \<open>
  The floating-point operations that the module uses: Python's \<open>/\<close> on two integers,
  which raises \<open>OverflowError\<close> when the quotient is too large for a float, \<open>*\<close>, \<open>+\<close>
  and \<open>/\<close> on two floats (double precision), \<open>tensor(x)\<close> on a float (single precision)
  and \<open>torch.tensor(xs).mean()\<close> on a non-empty list of tensors.
\<close>

record float_ops =
  true_div :: "int \<Rightarrow> int \<Rightarrow> error + real"
  fmul :: "real \<Rightarrow> real \<Rightarrow> real"
  fadd :: "real \<Rightarrow> real \<Rightarrow> real"
  fdiv :: "real \<Rightarrow> real \<Rightarrow> real"
  tensor :: "real \<Rightarrow> real"
  mean :: "real list \<Rightarrow> real"

definition ALLOWED_ROUGE_KEYS :: "(string \<times> rouge_key) list" where
  "ALLOWED_ROUGE_KEYS =
    [(''rouge1'', IntKey 1), (''rouge2'', IntKey 2), (''rouge3'', IntKey 3),
     (''rouge4'', IntKey 4), (''rouge5'', IntKey 5), (''rouge6'', IntKey 6),
     (''rouge7'', IntKey 7), (''rouge8'', IntKey 8), (''rouge9'', IntKey 9),
     (''rougeL'', StrKey ''L''), (''rougeLsum'', StrKey ''Lsum'')]"

text \<open>The loop \<open>for x in xs: s = f(s, x)\<close> whose body can raise.\<close>

fun for_loop :: "('s \<Rightarrow> 'a \<Rightarrow> error + 's) \<Rightarrow> 's \<Rightarrow> 'a list \<Rightarrow> error + 's" where
  "for_loop f s [] = Inr s"
| "for_loop f s (x # xs) = (case f s x of Inl e \<Rightarrow> Inl e | Inr s' \<Rightarrow> for_loop f s' xs)"

text \<open>The dict comprehension \<open>{k: v for k in ks}\<close>.\<close>

definition dict_init :: "'k list \<Rightarrow> 'v \<Rightarrow> ('k \<times> 'v) list" where
  "dict_init ks v = foldl (\<lambda>d k. AList.update k v d) [] ks"

text \<open>\<open>d[k].append(v)\<close>.\<close>

definition dict_append :: "('k \<times> 'v list) list \<Rightarrow> 'k \<Rightarrow> 'v \<Rightarrow> error + ('k \<times> 'v list) list" where
  "dict_append d k v =
     (case map_of d k of
        None \<Rightarrow> Inl KeyError
      | Some l \<Rightarrow> Inr (AList.update k (l @ [v]) d))"

subsection \<open>Sentence splitting for ROUGE-Lsum\<close>

definition lsum_message :: string where
  "lsum_message = ''ROUGE-Lsum calculation requires that `nltk` is installed. Use `pip install nltk`.''"

definition stemmer_message :: string where
  "stemmer_message = ''Stemmer requires that `nltk` is installed. Use `pip install nltk`.''"

text \<open>\<open>"\n".join(xs)\<close>.\<close>

fun join_newline :: "string list \<Rightarrow> string" where
  "join_newline [] = []"
| "join_newline [x] = x"
| "join_newline (x # y # ys) = x @ [CHR 0x0A] @ join_newline (y # ys)"

text \<open>The result of \<open>re.sub("<n>", "", x)\<close> is discarded by the source, and the download
  of the punkt data has no effect on the value returned.\<close>

definition add_newline_to_end_of_each_sentence :: "nltk \<Rightarrow> string \<Rightarrow> error + string" where
  "add_newline_to_end_of_each_sentence env x =
     (if \<not> nltk_available env then Inl (ModuleNotFoundError lsum_message)
      else Inr (join_newline (sent_tokenize env x)))"

subsection \<open>Precision, recall and F-measure\<close>

definition zero_score :: score where
  "zero_score = [(''precision'', Num 0), (''recall'', Num 0), (''fmeasure'', Num 0)]"

text \<open>Python's \<open>/\<close> on integers raises \<open>ZeroDivisionError\<close> for a zero divisor and is
  \<open>true_div\<close> otherwise, which can raise as well. The division of floats in the last line
  raises \<open>ZeroDivisionError\<close> for a zero divisor, after the product and the sum are
  computed. \<open>tensor(0.0)\<close> is the number 0.\<close>

definition compute_metrics :: "float_ops \<Rightarrow> int \<Rightarrow> int \<Rightarrow> int \<Rightarrow> error + score" where
  "compute_metrics fl hits_or_lcs pred_len target_len =
     (if pred_len = 0 then Inl ZeroDivisionError
      else case true_div fl hits_or_lcs pred_len of
        Inl e \<Rightarrow> Inl e
      | Inr precision \<Rightarrow>
          if target_len = 0 then Inl ZeroDivisionError
          else case true_div fl hits_or_lcs target_len of
            Inl e \<Rightarrow> Inl e
          | Inr recall \<Rightarrow>
              if precision = recall \<and> recall = 0 then Inr zero_score
              else if fadd fl precision recall = 0 then Inl ZeroDivisionError
              else let fmeasure = fdiv fl (fmul fl (fmul fl 2 precision) recall)
                                    (fadd fl precision recall) in
                Inr [(''precision'', Num (tensor fl precision)),
                     (''recall'', Num (tensor fl recall)),
                     (''fmeasure'', Num (tensor fl fmeasure))])"

subsection \<open>Longest common subsequence\<close>

text \<open>The table \<open>LCS\<close> is a list of rows; the two loops run over \<open>range(1, len + 1)\<close> and
  every index they use is inside the table.\<close>

definition lcs_cell :: "string list \<Rightarrow> string list \<Rightarrow> nat \<Rightarrow> nat list list \<Rightarrow> nat \<Rightarrow> nat list list" where
  "lcs_cell pred_tokens target_tokens i LCS j =
     (if target_tokens ! (i - 1) = pred_tokens ! (j - 1)
      then LCS[i := (LCS ! i)[j := LCS ! (i - 1) ! (j - 1) + 1]]
      else LCS[i := (LCS ! i)[j := max (LCS ! (i - 1) ! j) (LCS ! i ! (j - 1))]])"

definition lcs_row :: "string list \<Rightarrow> string list \<Rightarrow> nat list list \<Rightarrow> nat \<Rightarrow> nat list list" where
  "lcs_row pred_tokens target_tokens LCS i =
     foldl (lcs_cell pred_tokens target_tokens i) LCS [1..<length pred_tokens + 1]"

definition lcs :: "string list \<Rightarrow> string list \<Rightarrow> nat" where
  "lcs pred_tokens target_tokens =
     (let LCS = replicate (length target_tokens + 1) (replicate (length pred_tokens + 1) 0)
      in last (last (foldl (lcs_row pred_tokens target_tokens) LCS
                       [1..<length target_tokens + 1])))"

text \<open>The invariant of the two loops: the table has \<open>m + 1\<close> rows of \<open>n + 1\<close> cells, and
  the cell \<open>(i, j)\<close> holds at most \<open>min i j\<close>.\<close>

definition lcs_bounded :: "nat \<Rightarrow> nat \<Rightarrow> nat list list \<Rightarrow> bool" where
  "lcs_bounded m n LCS \<longleftrightarrow>
     length LCS = m + 1 \<and>
     (\<forall>i\<le>m. length (LCS ! i) = n + 1 \<and> (\<forall>j\<le>n. LCS ! i ! j \<le> min i j))"

subsection \<open>Normalisation and tokenisation\<close>

definition lower_char :: "char \<Rightarrow> char" where
  "lower_char c =
     (case map_of (zip ''ABCDEFGHIJKLMNOPQRSTUVWXYZ'' ''abcdefghijklmnopqrstuvwxyz'') c of
        Some l \<Rightarrow> l
      | None \<Rightarrow> c)"

definition is_alnum :: "char \<Rightarrow> bool" where
  "is_alnum c = (c \<in> set ''abcdefghijklmnopqrstuvwxyz0123456789'')"

text \<open>The ASCII characters that \<open>\s\<close> matches: space, tab, newline, vertical tab, form
  feed, carriage return and the four separators 0x1C to 0x1F.\<close>

definition is_space :: "char \<Rightarrow> bool" where
  "is_space c = (c \<in> set [CHR '' '', CHR 0x09, CHR 0x0A, CHR 0x0B, CHR 0x0C, CHR 0x0D,
                          CHR 0x1C, CHR 0x1D, CHR 0x1E, CHR 0x1F])"

text \<open>\<open>re.sub(r"[^a-z0-9]+", " ", text)\<close>: every maximal run of other characters becomes
  one space.\<close>

function sub_non_alnum :: "string \<Rightarrow> string" where
  "sub_non_alnum [] = []"
| "sub_non_alnum (c # cs) =
     (if is_alnum c then c # sub_non_alnum cs
      else CHR '' '' # sub_non_alnum (dropWhile (\<lambda>c. \<not> is_alnum c) cs))"
  by pat_completeness auto
termination
  by (relation "measure length") (auto simp: less_Suc_eq_le length_dropWhile_le)

text \<open>\<open>re.split(r"\s+", text)\<close>: the pieces between the maximal runs of white space,
  the empty pieces at both ends included.\<close>

function split_space :: "string \<Rightarrow> string list" where
  "split_space [] = [[]]"
| "split_space (c # cs) =
     (if is_space c then [] # split_space (dropWhile is_space cs)
      else (case split_space cs of
              [] \<Rightarrow> [[c]]
            | t # ts \<Rightarrow> (c # t) # ts))"
  by pat_completeness auto
termination
  by (relation "measure length") (auto simp: less_Suc_eq_le length_dropWhile_le)

text \<open>\<open>re.match(r"^[a-z0-9]+$", x)\<close>; the \<open>$\<close> also matches before one final newline.\<close>

definition match_token :: "string \<Rightarrow> bool" where
  "match_token x =
     ((x \<noteq> [] \<and> list_all is_alnum x) \<or>
      (x \<noteq> [] \<and> last x = CHR 0x0A \<and> butlast x \<noteq> [] \<and> list_all is_alnum (butlast x)))"

definition normalize_and_tokenize_text :: "string \<Rightarrow> (string \<Rightarrow> string) option \<Rightarrow> string list" where
  "normalize_and_tokenize_text text stemmer =
     (let text = sub_non_alnum (map lower_char text);
          tokens = split_space text;
          tokens = (case stemmer of
                      None \<Rightarrow> tokens
                    | Some stem \<Rightarrow> map (\<lambda>x. if length x > 3 then stem x else x) tokens)
      in filter match_token tokens)"

subsection \<open>ROUGE-N\<close>

text \<open>A \<open>Counter\<close> is a dict of counts; a missing key reads as 0.\<close>

fun counter_incr :: "('k \<times> nat) list \<Rightarrow> 'k \<Rightarrow> ('k \<times> nat) list" where
  "counter_incr [] k = [(k, 1)]"
| "counter_incr ((k', v) # c) k =
     (if k' = k then (k', v + 1) # c else (k', v) # counter_incr c k)"

definition counter_get :: "('k \<times> nat) list \<Rightarrow> 'k \<Rightarrow> nat" where
  "counter_get c k = (case map_of c k of None \<Rightarrow> 0 | Some v \<Rightarrow> v)"

text \<open>\<open>tokens[i : i + n]\<close> for \<open>i\<close> in \<open>range(len(tokens) - n + 1)\<close>; the range is empty
  when \<open>n\<close> exceeds \<open>len(tokens) + 1\<close>.\<close>

definition create_ngrams :: "string list \<Rightarrow> nat \<Rightarrow> (string list \<times> nat) list" where
  "create_ngrams tokens n =
     foldl counter_incr [] (map (\<lambda>i. take n (drop i tokens)) [0..<length tokens + 1 - n])"

definition rouge_n_score :: "float_ops \<Rightarrow> string list \<Rightarrow> string list \<Rightarrow> nat \<Rightarrow> error + score" where
  "rouge_n_score fl pred target n_gram =
     (let pred_ngrams = create_ngrams pred n_gram;
          target_ngrams = create_ngrams target n_gram;
          pred_len = sum_list (map snd pred_ngrams);
          target_len = sum_list (map snd target_ngrams)
      in if pred_len = 0 \<or> target_len = 0 then Inr zero_score
         else let hits = sum_list (map (\<lambda>w. min (counter_get pred_ngrams w)
                                                (counter_get target_ngrams w))
                                      (map fst pred_ngrams))
              in compute_metrics fl (int hits) (int (max pred_len 1)) (int (max target_len 1)))"

subsection \<open>ROUGE-L\<close>

definition rouge_l_score :: "float_ops \<Rightarrow> string list \<Rightarrow> string list \<Rightarrow> error + score" where
  "rouge_l_score fl pred target =
     (let pred_len = length pred; target_len = length target
      in if pred_len = 0 \<or> target_len = 0 then Inr zero_score
         else let lcs = lcs pred target
              in compute_metrics fl (int lcs) (int pred_len) (int target_len))"

subsection \<open>The two tensor operations of the torch library\<close>

text \<open>
  \<open>torch.tensor(xs).mean()\<close> on a list of 0-dimensional tensors: the mean of the
  numbers, \<open>nan\<close> for the empty list and for a list that holds \<open>nan\<close>.
\<close>

fun num_values :: "scalar list \<Rightarrow> real list option" where
  "num_values [] = Some []"
| "num_values (NaN # xs) = None"
| "num_values (Num x # xs) = (case num_values xs of None \<Rightarrow> None | Some rs \<Rightarrow> Some (x # rs))"

definition tensor_mean :: "float_ops \<Rightarrow> scalar list \<Rightarrow> scalar" where
  "tensor_mean fl xs =
     (if xs = [] then NaN
      else (case num_values xs of
              None \<Rightarrow> NaN
            | Some rs \<Rightarrow> Num (mean fl rs)))"

text \<open>
  \<open>torch.argmax\<close> on a one-dimensional tensor: the index of the first maximal value; it
  raises on the empty tensor. The library orders \<open>nan\<close> above every number.
\<close>

fun scalar_less :: "scalar \<Rightarrow> scalar \<Rightarrow> bool" where
  "scalar_less (Num a) (Num b) = (a < b)"
| "scalar_less (Num a) NaN = True"
| "scalar_less NaN b = False"

fun argmax_scan :: "nat \<Rightarrow> scalar \<Rightarrow> nat \<Rightarrow> scalar list \<Rightarrow> nat" where
  "argmax_scan best bv i [] = best"
| "argmax_scan best bv i (x # xs) =
     (if scalar_less bv x then argmax_scan i x (Suc i) xs
      else argmax_scan best bv (Suc i) xs)"

definition torch_argmax :: "scalar list \<Rightarrow> error + nat" where
  "torch_argmax xs =
     (case xs of
        [] \<Rightarrow> Inl EmptyTensorError
      | x # rest \<Rightarrow> Inr (argmax_scan 0 x 1 rest))"

subsection \<open>Scoring a batch: one score dict per example and key\<close>

text \<open>The list comprehension \<open>[f(x) for x in xs]\<close> whose element expression can raise.\<close>

fun map_result :: "('a \<Rightarrow> error + 'b) \<Rightarrow> 'a list \<Rightarrow> error + 'b list" where
  "map_result f [] = Inr []"
| "map_result f (x # xs) =
     (case f x of
        Inl e \<Rightarrow> Inl e
      | Inr y \<Rightarrow> (case map_result f xs of Inl e \<Rightarrow> Inl e | Inr ys \<Rightarrow> Inr (y # ys)))"

text \<open>Lines 230 to 236: the score of one reference for one key. \<open>target_Lsum\<close> is only
  bound when \<open>"Lsum"\<close> is among the keys.\<close>

definition key_score ::
  "float_ops \<Rightarrow> string list \<Rightarrow> string list \<Rightarrow> string list \<Rightarrow> string list option \<Rightarrow> rouge_key \<Rightarrow> error + score" where
  "key_score fl pred pred_Lsum tgt target_Lsum rouge_key =
     (case rouge_key of
        IntKey n \<Rightarrow> rouge_n_score fl pred tgt n
      | StrKey s \<Rightarrow>
          if s \<noteq> ''Lsum'' then rouge_l_score fl pred tgt
          else (case target_Lsum of
                  None \<Rightarrow> Inl UnboundLocalError
                | Some t \<Rightarrow> rouge_l_score fl pred_Lsum t))"

text \<open>Lines 229 to 238: the body of the loop over the keys, on the pair
  \<open>(result_inner, result_avg)\<close>.\<close>

definition key_step ::
  "float_ops \<Rightarrow> string list \<Rightarrow> string list \<Rightarrow> string list \<Rightarrow> string list option \<Rightarrow>
   (rouge_key \<times> score) list \<times> (rouge_key \<times> score list) list \<Rightarrow> rouge_key \<Rightarrow>
   error + (rouge_key \<times> score) list \<times> (rouge_key \<times> score list) list" where
  "key_step fl pred pred_Lsum tgt target_Lsum st rouge_key =
     (case st of (result_inner, result_avg) \<Rightarrow>
        (case key_score fl pred pred_Lsum tgt target_Lsum rouge_key of
           Inl e \<Rightarrow> Inl e
         | Inr score \<Rightarrow>
             (case dict_append result_avg rouge_key score of
                Inl e \<Rightarrow> Inl e
              | Inr result_avg' \<Rightarrow>
                  Inr (AList.update rouge_key score result_inner, result_avg'))))"

text \<open>Lines 221 to 227: the tokens of one reference, plain and for Lsum.\<close>

definition target_tokens_Lsum ::
  "nltk \<Rightarrow> (string \<Rightarrow> string) option \<Rightarrow> rouge_key list \<Rightarrow> string \<Rightarrow> error + string list option" where
  "target_tokens_Lsum env stemmer rouge_keys_values target_raw_inner =
     (if StrKey ''Lsum'' \<in> set rouge_keys_values
      then (case add_newline_to_end_of_each_sentence env target_raw_inner of
              Inl e \<Rightarrow> Inl e
            | Inr x \<Rightarrow> Inr (Some (normalize_and_tokenize_text x stemmer)))
      else Inr None)"

text \<open>Lines 220 to 239: the body of the loop over the references of one prediction, on
  the triple \<open>(result_inner, result_avg, list_results)\<close>.\<close>

definition reference_step ::
  "float_ops \<Rightarrow> nltk \<Rightarrow> (string \<Rightarrow> string) option \<Rightarrow> rouge_key list \<Rightarrow> string list \<Rightarrow> string list \<Rightarrow>
   (rouge_key \<times> score) list \<times> (rouge_key \<times> score list) list \<times> (rouge_key \<times> score) list list \<Rightarrow>
   string \<Rightarrow>
   error + (rouge_key \<times> score) list \<times> (rouge_key \<times> score list) list \<times> (rouge_key \<times> score) list list" where
  "reference_step fl env stemmer rouge_keys_values pred pred_Lsum st target_raw_inner =
     (case st of (result_inner, result_avg, list_results) \<Rightarrow>
        let tgt = normalize_and_tokenize_text target_raw_inner stemmer in
        (case target_tokens_Lsum env stemmer rouge_keys_values target_raw_inner of
           Inl e \<Rightarrow> Inl e
         | Inr target_Lsum \<Rightarrow>
             (case for_loop (key_step fl pred pred_Lsum tgt target_Lsum)
                     (result_inner, result_avg) rouge_keys_values of
                Inl e \<Rightarrow> Inl e
              | Inr (result_inner', result_avg') \<Rightarrow>
                  Inr (result_inner', result_avg', list_results @ [result_inner']))))"

text \<open>Line 243: \<open>v[key_curr]["fmeasure"]\<close>.\<close>

definition fmeasure_of :: "rouge_key \<Rightarrow> (rouge_key \<times> score) list \<Rightarrow> error + scalar" where
  "fmeasure_of key_curr v =
     (case map_of v key_curr of
        None \<Rightarrow> Inl KeyError
      | Some s \<Rightarrow> (case map_of s ''fmeasure'' of None \<Rightarrow> Inl KeyError | Some x \<Rightarrow> Inr x))"

text \<open>Lines 241 to 247: accumulation \<open>best\<close>.\<close>

definition accumulate_best ::
  "rouge_key list \<Rightarrow> (rouge_key \<times> score) list list \<Rightarrow> (rouge_key \<times> score list) list \<Rightarrow>
   error + (rouge_key \<times> score list) list" where
  "accumulate_best rouge_keys_values list_results results =
     (case rouge_keys_values of
        [] \<Rightarrow> Inl IndexError
      | key_curr # _ \<Rightarrow>
          (case map_result (fmeasure_of key_curr) list_results of
             Inl e \<Rightarrow> Inl e
           | Inr all_fmeasure \<Rightarrow>
               (case torch_argmax all_fmeasure of
                  Inl e \<Rightarrow> Inl e
                | Inr highest_idx \<Rightarrow>
                    for_loop (\<lambda>results rouge_key.
                        if highest_idx < length list_results
                        then (case map_of (list_results ! highest_idx) rouge_key of
                                None \<Rightarrow> Inl KeyError
                              | Some s \<Rightarrow> dict_append results rouge_key s)
                        else Inl IndexError)
                      results rouge_keys_values)))"

text \<open>Lines 254 to 259: the values of every field, collected over a list of score
  dicts.\<close>

definition batch_add :: "(string \<times> scalar list) list \<Rightarrow> string \<times> scalar \<Rightarrow> (string \<times> scalar list) list" where
  "batch_add d tv =
     (case tv of (ty, v) \<Rightarrow>
        (case map_of d ty of
           None \<Rightarrow> AList.update ty [v] d
         | Some l \<Rightarrow> AList.update ty (l @ [v]) d))"

definition dict_metric_score_batch :: "score list \<Rightarrow> (string \<times> scalar list) list" where
  "dict_metric_score_batch metrics = foldl (\<lambda>d metric. foldl batch_add d metric) [] metrics"

text \<open>Lines 261 to 263.\<close>

definition mean_score :: "float_ops \<Rightarrow> score list \<Rightarrow> score" where
  "mean_score fl metrics =
     map (\<lambda>(ty, vs). (ty, tensor_mean fl vs)) (dict_metric_score_batch metrics)"

text \<open>Lines 249 to 266: accumulation \<open>avg\<close>.\<close>

definition accumulate_avg ::
  "float_ops \<Rightarrow> rouge_key list \<Rightarrow> (rouge_key \<times> score list) list \<Rightarrow> (rouge_key \<times> score list) list \<Rightarrow>
   error + (rouge_key \<times> score list) list" where
  "accumulate_avg fl rouge_keys_values result_avg results =
     (let new_result_avg =
            foldl (\<lambda>d (rouge_key, metrics). AList.update rouge_key (mean_score fl metrics) d)
              (dict_init rouge_keys_values []) result_avg
      in for_loop (\<lambda>results rouge_key.
             (case map_of new_result_avg rouge_key of
                None \<Rightarrow> Inl KeyError
              | Some s \<Rightarrow> dict_append results rouge_key s))
           results rouge_keys_values)"

text \<open>Lines 214 to 266: the body of the loop over the examples, on \<open>results\<close>.\<close>

definition example_step ::
  "float_ops \<Rightarrow> nltk \<Rightarrow> (string \<Rightarrow> string) option \<Rightarrow> rouge_key list \<Rightarrow> string \<Rightarrow>
   (rouge_key \<times> score list) list \<Rightarrow> string \<times> string list \<Rightarrow>
   error + (rouge_key \<times> score list) list" where
  "example_step fl env stemmer rouge_keys_values accumulate results ex =
     (case ex of (pred_raw, target_raw) \<Rightarrow>
        let result_inner = dict_init rouge_keys_values [];
            result_avg = dict_init rouge_keys_values [];
            pred = normalize_and_tokenize_text pred_raw stemmer
        in (case add_newline_to_end_of_each_sentence env pred_raw of
              Inl e \<Rightarrow> Inl e
            | Inr x \<Rightarrow>
                let pred_Lsum = normalize_and_tokenize_text x stemmer in
                (case for_loop (reference_step fl env stemmer rouge_keys_values pred pred_Lsum)
                        (result_inner, result_avg, []) target_raw of
                   Inl e \<Rightarrow> Inl e
                 | Inr (result_inner', result_avg', list_results) \<Rightarrow>
                     if accumulate = ''best''
                     then accumulate_best rouge_keys_values list_results results
                     else if accumulate = ''avg''
                     then accumulate_avg fl rouge_keys_values result_avg' results
                     else Inr results)))"

definition rouge_score_update ::
  "float_ops \<Rightarrow> nltk \<Rightarrow> string list \<Rightarrow> string list list \<Rightarrow> rouge_key list \<Rightarrow> string \<Rightarrow>
   (string \<Rightarrow> string) option \<Rightarrow> error + (rouge_key \<times> score list) list" where
  "rouge_score_update fl env preds target rouge_keys_values accumulate stemmer =
     for_loop (example_step fl env stemmer rouge_keys_values accumulate)
       (dict_init rouge_keys_values []) (zip preds target)"

subsection \<open>The mean over the batch\<close>

definition rouge_score_compute :: "float_ops \<Rightarrow> (string \<times> scalar list) list \<Rightarrow> (string \<times> scalar) list" where
  "rouge_score_compute fl sentence_results =
     (if sentence_results = [] then []
      else foldl (\<lambda>results (rouge_key, scores). AList.update rouge_key (tensor_mean fl scores) results)
             [] sentence_results)"

subsection \<open>The entry point\<close>

datatype preds_arg = PredStr string | PredList "string list"

datatype target_arg = TargetStr string | TargetList "string list" | TargetLists "string list list"

datatype keys_arg = KeyStr string | KeyTuple "string list"

text \<open>\<open>str(n)\<close> for a natural number, and the text that the f-string puts for a key.\<close>

fun str_nat :: "nat \<Rightarrow> string" where
  "str_nat n =
     (if n < 10 then [''0123456789'' ! n]
      else str_nat (n div 10) @ [''0123456789'' ! (n mod 10)])"

definition key_text :: "rouge_key \<Rightarrow> string" where
  "key_text rouge_key = (case rouge_key of IntKey n \<Rightarrow> str_nat n | StrKey s \<Rightarrow> s)"

definition output_name :: "rouge_key \<Rightarrow> string \<Rightarrow> string" where
  "output_name rouge_key ty = ''rouge'' @ key_text rouge_key @ ''_'' @ ty"

text \<open>Lines 353 to 358: the keys as a tuple, checked in order, then looked up.\<close>

definition keys_tuple :: "keys_arg \<Rightarrow> string list" where
  "keys_tuple rouge_keys = (case rouge_keys of KeyStr k \<Rightarrow> [k] | KeyTuple ks \<Rightarrow> ks)"

definition check_keys :: "string list \<Rightarrow> error + rouge_key list" where
  "check_keys rouge_keys =
     map_result (\<lambda>key.
         (case map_of ALLOWED_ROUGE_KEYS key of
            None \<Rightarrow> Inl (ValueError key (map fst ALLOWED_ROUGE_KEYS))
          | Some v \<Rightarrow> Inr v))
       rouge_keys"

text \<open>
  Lines 360 to 367. A Python list whose elements are all strings is \<open>TargetList\<close>. The
  empty list passes the test of line 360 whichever type its elements were meant to have,
  so \<open>TargetLists []\<close> is treated as \<open>TargetList []\<close> is.
\<close>

definition normalize_shape :: "preds_arg \<Rightarrow> target_arg \<Rightarrow> string list \<times> string list list" where
  "normalize_shape preds target =
     (let target' =
            (case target of
               TargetStr t \<Rightarrow> [[t]]
             | TargetList ts \<Rightarrow>
                 (case preds of PredStr p \<Rightarrow> [ts] | PredList ps \<Rightarrow> map (\<lambda>tgt. [tgt]) ts)
             | TargetLists gs \<Rightarrow>
                 if gs = [] then (case preds of PredStr p \<Rightarrow> [[]] | PredList ps \<Rightarrow> [])
                 else gs);
          preds' = (case preds of PredStr p \<Rightarrow> [p] | PredList ps \<Rightarrow> ps)
      in (preds', target'))"

text \<open>Lines 373 to 381: the values of every output name, collected over the examples.\<close>

definition output_init :: "rouge_key list \<Rightarrow> (string \<times> scalar list) list" where
  "output_init rouge_keys_values =
     foldl (\<lambda>output rouge_key.
         foldl (\<lambda>output ty. AList.update (output_name rouge_key ty) [] output) output
           [''fmeasure'', ''precision'', ''recall''])
       [] rouge_keys_values"

definition output_fill ::
  "(rouge_key \<times> score list) list \<Rightarrow> (string \<times> scalar list) list \<Rightarrow> error + (string \<times> scalar list) list" where
  "output_fill sentence_results output =
     for_loop (\<lambda>output (rouge_key, metrics).
         for_loop (\<lambda>output metric.
             for_loop (\<lambda>output (ty, v). dict_append output (output_name rouge_key ty) v)
               output metric)
           output metrics)
       output sentence_results"

definition rouge_score ::
  "float_ops \<Rightarrow> nltk \<Rightarrow> preds_arg \<Rightarrow> target_arg \<Rightarrow> string \<Rightarrow> bool \<Rightarrow> keys_arg \<Rightarrow> error + (string \<times> scalar) list" where
  "rouge_score fl env preds target accumulate use_stemmer rouge_keys =
     (if use_stemmer \<and> \<not> nltk_available env then Inl (ModuleNotFoundError stemmer_message)
      else
        let stemmer = (if use_stemmer then Some (porter_stem env) else None) in
        (case check_keys (keys_tuple rouge_keys) of
           Inl e \<Rightarrow> Inl e
         | Inr rouge_keys_values \<Rightarrow>
             (case normalize_shape preds target of (preds', target') \<Rightarrow>
                (case rouge_score_update fl env preds' target' rouge_keys_values accumulate stemmer of
                   Inl e \<Rightarrow> Inl e
                 | Inr sentence_results \<Rightarrow>
                     (case output_fill sentence_results (output_init rouge_keys_values) of
                        Inl e \<Rightarrow> Inl e
                      | Inr output \<Rightarrow> Inr (rouge_score_compute fl output))))))"

subsection \<open>Arithmetic without rounding, and what the proofs need of an arithmetic\<close>

definition exact_ops :: float_ops where
  "exact_ops =
     \<lparr>true_div = (\<lambda>a b. Inr (real_of_int a / real_of_int b)), fmul = (*), fadd = (+),
      fdiv = (/), tensor = (\<lambda>x. x), mean = (\<lambda>xs. sum_list xs / real (length xs))\<rparr>"

text \<open>An arithmetic whose \<open>tensor\<close> rounds down to a multiple of 1/2, for an example
  of rounding.\<close>

definition halves_ops :: float_ops where
  "halves_ops = exact_ops\<lparr>tensor := (\<lambda>x. real_of_int \<lfloor>2 * x\<rfloor> / 2)\<rparr>"

text \<open>
  Two facts of floating-point arithmetic, which rounds monotonically: the quotient of a
  non-negative integer by a positive one that is not smaller is a float (it is at most
  1) and is not negative, and the sum of two non-negative floats is 0 only when both are
  0. With them neither of the divisions of \<open>compute_metrics\<close> raises for the integers
  that the two scorers pass.
\<close>

definition sign_preserving :: "float_ops \<Rightarrow> bool" where
  "sign_preserving fl \<longleftrightarrow>
     (\<forall>a b. 0 \<le> a \<and> a \<le> b \<and> 0 < b \<longrightarrow> (\<exists>q. true_div fl a b = Inr q \<and> 0 \<le> q)) \<and>
     (\<forall>x y. 0 \<le> x \<and> 0 \<le> y \<and> fadd fl x y = 0 \<longrightarrow> x = 0 \<and> y = 0)"

subsection \<open>Two environments for the concrete examples\<close>

text \<open>A splitter that finds one sentence in every text and a stemmer that changes no
  word, with \<open>nltk\<close> installed and not installed.\<close>

definition one_sentence :: "string \<Rightarrow> string list" where
  "one_sentence x = [x]"

definition nltk_installed :: nltk where
  "nltk_installed = \<lparr>nltk_available = True, sent_tokenize = one_sentence, porter_stem = id\<rparr>"

definition nltk_missing :: nltk where
  "nltk_missing = \<lparr>nltk_available = False, sent_tokenize = one_sentence, porter_stem = id\<rparr>"

subsection \<open>The score of one reference for one key\<close>

text \<open>The dict \<open>dict(precision=tensor(p), recall=tensor(r), fmeasure=tensor(f))\<close> that
  \<open>compute_metrics\<close> and the two scorers return.\<close>

definition score_dict :: "real \<Rightarrow> real \<Rightarrow> real \<Rightarrow> score" where
  "score_dict p r f = [(''precision'', Num p), (''recall'', Num r), (''fmeasure'', Num f)]"

text \<open>What lines 217 to 236 compute for a prediction, one of its references and one of
  the keys: the tokens of both texts, plain and for Lsum, and the score for the key.\<close>

definition reference_score ::
  "float_ops \<Rightarrow> nltk \<Rightarrow> (string \<Rightarrow> string) option \<Rightarrow> rouge_key list \<Rightarrow> string \<Rightarrow> string \<Rightarrow> rouge_key \<Rightarrow>
   error + score" where
  "reference_score fl env stemmer rouge_keys_values pred_raw target_raw_inner rouge_key =
     (case add_newline_to_end_of_each_sentence env pred_raw of
        Inl e \<Rightarrow> Inl e
      | Inr x \<Rightarrow>
          (case target_tokens_Lsum env stemmer rouge_keys_values target_raw_inner of
             Inl e \<Rightarrow> Inl e
           | Inr target_Lsum \<Rightarrow>
               key_score fl (normalize_and_tokenize_text pred_raw stemmer)
                 (normalize_and_tokenize_text x stemmer)
                 (normalize_and_tokenize_text target_raw_inner stemmer)
                 target_Lsum rouge_key))"

section \<open>Properties\<close>

subsection \<open>Metric derivation\<close>




subsection \<open>Empty and short sequences\<close>

lemma counter_incr_total: "sum_list (map snd (counter_incr c k)) = Suc (sum_list (map snd c))"
  by (induction c k rule: counter_incr.induct) auto

lemma counter_total: "sum_list (map snd (foldl counter_incr c ws)) = sum_list (map snd c) + length ws"
  by (induction ws arbitrary: c) (auto simp: counter_incr_total)

lemma create_ngrams_total:
  "sum_list (map snd (create_ngrams tokens n)) = length tokens + 1 - n"
  by (simp add: create_ngrams_def counter_total)

lemma rouge_n_score_short:
  assumes "length pred < n \<or> length target < n"
  shows "rouge_n_score fl pred target n = Inr zero_score"
proof -
  from assms have "length pred + 1 - n = 0 \<or> length target + 1 - n = 0" by auto
  then show ?thesis
    unfolding rouge_n_score_def Let_def create_ngrams_total by auto
qed

text \<open>
  Claim C5: when either token sequence is empty, or shorter than the window size \<open>n\<close> of
  ROUGE-N (a positive integer), the n-gram scorer returns precision, recall and
  F-measure 0, and the LCS scorer returns the same for an empty sequence.
\<close>

theorem zero_length_scores:
  assumes "0 < n"
  shows "(pred = [] \<or> target = [] \<or> length pred < n \<or> length target < n
            \<longrightarrow> rouge_n_score fl pred target n = Inr zero_score)
       \<and> (pred = [] \<or> target = [] \<longrightarrow> rouge_l_score fl pred target = Inr zero_score)"
proof -
  have "rouge_n_score fl pred target n = Inr zero_score"
    if "pred = [] \<or> target = [] \<or> length pred < n \<or> length target < n"
  proof -
    from that assms have "length pred < n \<or> length target < n" by auto
    then show ?thesis by (rule rouge_n_score_short)
  qed
  moreover have "rouge_l_score fl pred target = Inr zero_score" if "pred = [] \<or> target = []"
    using that by (auto simp: rouge_l_score_def)
  ultimately show ?thesis by blast
qed

theorem zero_length_scores_witness:
  "(0::nat) < 2 \<and> length [''a''] < (2::nat) \<and>
   rouge_n_score exact_ops [''a''] [''a'', ''b'', ''c''] 2 = Inr zero_score \<and>
   rouge_l_score exact_ops [] [''a'', ''b'', ''c''] = Inr zero_score \<and>
   zero_score = [(''precision'', Num 0), (''recall'', Num 0), (''fmeasure'', Num 0)]"
  using zero_length_scores [of 2 "[''a'']" "[''a'', ''b'', ''c'']"]
    zero_length_scores [of 2 "[]" "[''a'', ''b'', ''c'']"]
  by (simp add: zero_score_def)

subsection \<open>Validation of the keys\<close>

lemma allowed_names:
  "map fst ALLOWED_ROUGE_KEYS =
     [''rouge1'', ''rouge2'', ''rouge3'', ''rouge4'', ''rouge5'', ''rouge6'', ''rouge7'',
      ''rouge8'', ''rouge9'', ''rougeL'', ''rougeLsum'']"
  by (simp add: ALLOWED_ROUGE_KEYS_def)

lemma allowed_lookup_None:
  "map_of ALLOWED_ROUGE_KEYS k = None \<longleftrightarrow> k \<notin> set (map fst ALLOWED_ROUGE_KEYS)"
  by (simp add: map_of_eq_None_iff)

lemma check_keys_unknown:
  assumes "k \<in> set ks" and "k \<notin> set (map fst ALLOWED_ROUGE_KEYS)"
  shows "check_keys ks =
     Inl (ValueError (hd (filter (\<lambda>k. k \<notin> set (map fst ALLOWED_ROUGE_KEYS)) ks))
            (map fst ALLOWED_ROUGE_KEYS))"
  using assms
proof (induction ks)
  case Nil
  then show ?case by simp
next
  case (Cons a ks)
  show ?case
  proof (cases "a \<in> set (map fst ALLOWED_ROUGE_KEYS)")
    case True
    then obtain v where v: "map_of ALLOWED_ROUGE_KEYS a = Some v"
      using allowed_lookup_None [of a] by auto
    from True Cons.prems have "k \<in> set ks" by auto
    then have "check_keys ks =
        Inl (ValueError (hd (filter (\<lambda>k. k \<notin> set (map fst ALLOWED_ROUGE_KEYS)) ks))
               (map fst ALLOWED_ROUGE_KEYS))"
      using Cons.IH Cons.prems(2) by simp
    then show ?thesis using True v by (simp add: check_keys_def)
  next
    case False
    then have "map_of ALLOWED_ROUGE_KEYS a = None"
      using allowed_lookup_None [of a] by simp
    then show ?thesis using False by (simp add: check_keys_def)
  qed
qed

text \<open>
  Claim C6, as stated, with stemming requested and \<open>nltk\<close> not installed: the unknown key
  \<open>rouge10\<close> is not reported; the error raised is the one of the stemmer check of lines
  346 to 348, which names no key.
\<close>

theorem unknown_key_stemmer_counterexample:
  "rouge_score exact_ops nltk_missing (PredStr ''a'') (TargetStr ''a'') ''best'' True (KeyTuple [''rouge10''])
     = Inl (ModuleNotFoundError stemmer_message)"
  by (simp add: rouge_score_def nltk_missing_def)

text \<open>
  Claim C6, amended: when \<open>rouge_keys\<close> holds a key outside \<open>rouge1\<close> to \<open>rouge9\<close>,
  \<open>rougeL\<close> and \<open>rougeLsum\<close>, \<open>rouge_score\<close> returns an error and nothing else,
  whatever the predictions and references are: the \<open>ValueError\<close> that names the first such
  key and the list of the allowed keys, unless stemming is requested without \<open>nltk\<close>,
  where it is the \<open>ModuleNotFoundError\<close> of the stemmer check.
\<close>

theorem unknown_key_rejected:
  fixes names :: "string list"
  defines "names \<equiv> [''rouge1'', ''rouge2'', ''rouge3'', ''rouge4'', ''rouge5'', ''rouge6'',
                     ''rouge7'', ''rouge8'', ''rouge9'', ''rougeL'', ''rougeLsum'']"
  assumes "k \<in> set (keys_tuple rouge_keys)" and "k \<notin> set names"
  shows "rouge_score fl env preds target accumulate use_stemmer rouge_keys =
     (if use_stemmer \<and> \<not> nltk_available env then Inl (ModuleNotFoundError stemmer_message)
      else Inl (ValueError (hd (filter (\<lambda>k. k \<notin> set names) (keys_tuple rouge_keys))) names))"
proof -
  have n: "names = map fst ALLOWED_ROUGE_KEYS"
    unfolding names_def allowed_names ..
  have "check_keys (keys_tuple rouge_keys) =
      Inl (ValueError (hd (filter (\<lambda>k. k \<notin> set names) (keys_tuple rouge_keys))) names)"
    unfolding n using assms(2,3) unfolding n by (rule check_keys_unknown)
  then show ?thesis by (simp add: rouge_score_def)
qed

theorem unknown_key_rejected_witness:
  "''rouge10'' \<in> set (keys_tuple (KeyTuple [''rouge1'', ''rouge10''])) \<and>
   ''rouge10'' \<notin> set [''rouge1'', ''rouge2'', ''rouge3'', ''rouge4'', ''rouge5'', ''rouge6'',
                     ''rouge7'', ''rouge8'', ''rouge9'', ''rougeL'', ''rougeLsum''] \<and>
   rouge_score exact_ops nltk_installed (PredStr ''a'') (TargetStr ''a'') ''best'' False
       (KeyTuple [''rouge1'', ''rouge10''])
     = Inl (ValueError ''rouge10''
         [''rouge1'', ''rouge2'', ''rouge3'', ''rouge4'', ''rouge5'', ''rouge6'',
          ''rouge7'', ''rouge8'', ''rouge9'', ''rougeL'', ''rougeLsum''])"
  using unknown_key_rejected [of "''rouge10''" "KeyTuple [''rouge1'', ''rouge10'']"
      exact_ops nltk_installed "PredStr ''a''" "TargetStr ''a''" "''best''" False]
  by (simp add: keys_tuple_def)

subsection \<open>The empty batch\<close>

text \<open>
  Claim C9 at the empty batch with the one key \<open>rouge1\<close>: no error is raised, but the
  mapping returned is not empty. It has the three output names of the key, each with the
  mean of an empty tensor as its value.
\<close>

theorem empty_batch_yields_nan:
  "rouge_score fl env (PredList []) (TargetList []) accumulate False (KeyTuple [''rouge1''])
     = Inr [(''rouge1_fmeasure'', NaN), (''rouge1_precision'', NaN), (''rouge1_recall'', NaN)]"
proof -
  have k: "check_keys (keys_tuple (KeyTuple [''rouge1''])) = Inr [IntKey 1]"
    by (simp add: keys_tuple_def check_keys_def ALLOWED_ROUGE_KEYS_def)
  have n: "normalize_shape (PredList []) (TargetList []) = ([], [])"
    by (simp add: normalize_shape_def)
  have u: "rouge_score_update fl env [] [] [IntKey 1] accumulate None = Inr [(IntKey 1, [])]"
    by (simp add: rouge_score_update_def dict_init_def)
  have f: "output_fill [(IntKey 1, [])] (output_init [IntKey 1]) =
      Inr [(''rouge1_fmeasure'', []), (''rouge1_precision'', []), (''rouge1_recall'', [])]"
    by (simp add: output_fill_def output_init_def output_name_def key_text_def)
  have c: "rouge_score_compute fl
        [(''rouge1_fmeasure'', []), (''rouge1_precision'', []), (''rouge1_recall'', [])] =
      [(''rouge1_fmeasure'', NaN), (''rouge1_precision'', NaN), (''rouge1_recall'', NaN)]"
    by (simp add: rouge_score_compute_def tensor_mean_def)
  show ?thesis
    by (simp add: rouge_score_def k n u f c del: One_nat_def)
qed

subsection \<open>Shape normalisation\<close>

text \<open>
  Claim C10: for a single prediction string and a list of target strings, the whole list
  is the reference group of that prediction; for a list of predictions and a list of
  target strings, every target string is the one-element reference group at its
  position. \<open>rouge_score\<close> gives on either input what it gives on the normalised one.
\<close>

theorem shape_normalization:
  "normalize_shape (PredStr p) (TargetList ts) = ([p], [ts])
   \<and> normalize_shape (PredList ps) (TargetList ts) = (ps, map (\<lambda>t. [t]) ts)
   \<and> rouge_score fl env (PredStr p) (TargetList ts) accumulate use_stemmer rouge_keys
       = rouge_score fl env (PredList [p]) (TargetLists [ts]) accumulate use_stemmer rouge_keys
   \<and> rouge_score fl env (PredList ps) (TargetList ts) accumulate use_stemmer rouge_keys
       = rouge_score fl env (PredList ps) (TargetLists (map (\<lambda>t. [t]) ts)) accumulate
           use_stemmer rouge_keys"
proof -
  have 1: "normalize_shape (PredStr p) (TargetList ts) = ([p], [ts])"
    by (simp add: normalize_shape_def)
  have 2: "normalize_shape (PredList ps) (TargetList ts) = (ps, map (\<lambda>t. [t]) ts)"
    by (simp add: normalize_shape_def)
  have 3: "normalize_shape (PredList [p]) (TargetLists [ts]) = ([p], [ts])"
    by (simp add: normalize_shape_def)
  have 4: "normalize_shape (PredList ps) (TargetLists (map (\<lambda>t. [t]) ts)) = (ps, map (\<lambda>t. [t]) ts)"
    by (cases ts) (simp_all add: normalize_shape_def)
  show ?thesis
    unfolding rouge_score_def 1 2 3 4 by simp
qed

subsection \<open>Predictions and reference groups of different numbers\<close>

lemma zip_take_min:
  "zip (take (min (length xs) (length ys)) xs) (take (min (length xs) (length ys)) ys) = zip xs ys"
proof -
  have "zip (take (min (length xs) (length ys)) xs) (take (min (length xs) (length ys)) ys)
      = take (length (zip xs ys)) (zip xs ys)"
    by (simp add: take_zip)
  then show ?thesis by simp
qed

lemma normalize_shape_lists: "normalize_shape (PredList ps) (TargetLists gs) = (ps, gs)"
  by (simp add: normalize_shape_def)

text \<open>
  Claim C8, as stated, at two predictions and one reference: no error is raised; the
  second prediction is dropped and the scores of the first pair are returned.
\<close>

theorem count_mismatch_counterexample:
  "rouge_score exact_ops nltk_installed (PredList [''a'', ''b'']) (TargetList [''a'']) ''best'' False
       (KeyTuple [''rouge1''])
     = Inr [(''rouge1_fmeasure'', Num 1), (''rouge1_precision'', Num 1), (''rouge1_recall'', Num 1)]"
  by code_simp

text \<open>
  Claim C8, amended: a difference between the number of predictions and the number of
  reference groups raises no error. The two sequences are paired by position up to the
  length of the shorter one, and the result, error or mapping, is the one of the batch
  cut to that length.
\<close>

theorem count_mismatch_truncates:
  "rouge_score_update fl env preds target rouge_keys_values accumulate stemmer
     = rouge_score_update fl env (take (min (length preds) (length target)) preds)
         (take (min (length preds) (length target)) target) rouge_keys_values accumulate stemmer
   \<and> rouge_score fl env (PredList preds) (TargetLists target) accumulate use_stemmer rouge_keys
     = rouge_score fl env (PredList (take (min (length preds) (length target)) preds))
         (TargetLists (take (min (length preds) (length target)) target))
         accumulate use_stemmer rouge_keys"
proof -
  have u: "rouge_score_update fl env preds target ks accumulate st
     = rouge_score_update fl env (take (min (length preds) (length target)) preds)
         (take (min (length preds) (length target)) target) ks accumulate st" for ks st
    unfolding rouge_score_update_def zip_take_min ..
  show ?thesis
    unfolding rouge_score_def normalize_shape_lists prod.case u [symmetric] by simp
qed

subsection \<open>ROUGE-Lsum without the sentence splitter\<close>

lemma check_keys_allowed:
  assumes "set ks \<subseteq> set (map fst ALLOWED_ROUGE_KEYS)"
  shows "\<exists>vs. check_keys ks = Inr vs"
  using assms
proof (induction ks)
  case Nil
  then show ?case by (simp add: check_keys_def)
next
  case (Cons a ks)
  then obtain vs where vs: "check_keys ks = Inr vs" by auto
  from Cons.prems obtain v where "map_of ALLOWED_ROUGE_KEYS a = Some v"
    using allowed_lookup_None [of a] by auto
  with vs show ?case by (simp add: check_keys_def)
qed

lemma example_step_without_nltk:
  assumes "\<not> nltk_available env"
  shows "example_step fl env stemmer ks accumulate results ex = Inl (ModuleNotFoundError lsum_message)"
  using assms
  by (cases ex) (simp add: example_step_def add_newline_to_end_of_each_sentence_def)

lemma update_without_nltk:
  assumes "\<not> nltk_available env" and "preds \<noteq> []" and "target \<noteq> []"
  shows "rouge_score_update fl env preds target ks accumulate stemmer =
    Inl (ModuleNotFoundError lsum_message)"
proof -
  from assms(2,3) obtain p ps g gs where "preds = p # ps" "target = g # gs"
    by (cases preds; cases target) auto
  then show ?thesis
    by (simp add: rouge_score_update_def example_step_without_nltk [OF assms(1)])
qed

lemma update_empty_batch:
  assumes "preds = [] \<or> target = []"
  shows "rouge_score_update fl env preds target ks accumulate stemmer = Inr (dict_init ks [])"
  using assms by (auto simp: rouge_score_update_def)

lemma update_values:
  assumes "\<forall>(k, v) \<in> set d. v = w"
  shows "\<forall>(k, v) \<in> set (AList.update a w d). v = w"
  using assms by (induction d) auto

lemma dict_init_values_aux:
  assumes "\<forall>(k, v) \<in> set d. v = w"
  shows "\<forall>(k, v) \<in> set (foldl (\<lambda>d k. AList.update k w d) d ks). v = w"
  using assms
proof (induction ks arbitrary: d)
  case Nil
  then show ?case by simp
next
  case (Cons a ks)
  from Cons.IH [OF update_values [OF Cons.prems]] show ?case by simp
qed

lemma dict_init_values: "\<forall>(k, v) \<in> set (dict_init ks w). v = w"
  unfolding dict_init_def by (rule dict_init_values_aux) simp

lemma output_fill_nothing:
  assumes "\<forall>(k, v) \<in> set d. v = []"
  shows "output_fill d output = Inr output"
  using assms by (induction d) (auto simp: output_fill_def)

text \<open>
  Claim C7, as stated, at two inputs without \<open>nltk\<close>. With \<open>rougeLsum\<close> requested and an
  empty batch no error is raised. With only \<open>rouge1\<close> requested and one example, the
  error of the missing sentence splitter is raised all the same.
\<close>

theorem lsum_splitter_counterexample:
  "rouge_score exact_ops nltk_missing (PredList []) (TargetList []) ''best'' False (KeyTuple [''rougeLsum''])
     = Inr [(''rougeLsum_fmeasure'', NaN), (''rougeLsum_precision'', NaN),
            (''rougeLsum_recall'', NaN)]
   \<and> rouge_score exact_ops nltk_missing (PredStr ''a'') (TargetStr ''a'') ''best'' False (KeyTuple [''rouge1''])
     = Inl (ModuleNotFoundError lsum_message)"
  by code_simp

text \<open>
  Claim C7, amended: when the keys are allowed ones, \<open>rougeLsum\<close> is among them and \<open>nltk\<close>
  is not installed, \<open>rouge_score\<close> on a batch with at least one prediction and one
  reference group returns a \<open>ModuleNotFoundError\<close> and nothing else, whatever the texts
  are (the error of the stemmer check when stemming is requested, the error of the
  sentence splitter otherwise); on a batch with no prediction or no reference group, and
  without stemming, it returns a mapping and no error.
\<close>

theorem lsum_without_splitter:
  fixes names :: "string list"
  defines "names \<equiv> [''rouge1'', ''rouge2'', ''rouge3'', ''rouge4'', ''rouge5'', ''rouge6'',
                     ''rouge7'', ''rouge8'', ''rouge9'', ''rougeL'', ''rougeLsum'']"
  assumes "\<not> nltk_available env"
    and "set (keys_tuple rouge_keys) \<subseteq> set names"
    and "''rougeLsum'' \<in> set (keys_tuple rouge_keys)"
    and "normalize_shape preds target = (preds', target')"
  shows "(preds' \<noteq> [] \<and> target' \<noteq> [] \<longrightarrow>
            rouge_score fl env preds target accumulate use_stemmer rouge_keys =
              Inl (ModuleNotFoundError (if use_stemmer then stemmer_message else lsum_message)))
       \<and> ((preds' = [] \<or> target' = []) \<and> \<not> use_stemmer \<longrightarrow>
            (\<exists>output. rouge_score fl env preds target accumulate use_stemmer rouge_keys = Inr output))"
proof -
  have "names = map fst ALLOWED_ROUGE_KEYS"
    unfolding names_def allowed_names ..
  with assms(3) obtain vs where vs: "check_keys (keys_tuple rouge_keys) = Inr vs"
    using check_keys_allowed by auto
  have 1: "rouge_score fl env preds target accumulate use_stemmer rouge_keys =
      Inl (ModuleNotFoundError (if use_stemmer then stemmer_message else lsum_message))"
    if "preds' \<noteq> []" "target' \<noteq> []"
    using assms(2) vs assms(5) update_without_nltk [OF assms(2) that]
    by (simp add: rouge_score_def)
  have 2: "\<exists>output. rouge_score fl env preds target accumulate use_stemmer rouge_keys = Inr output"
    if "preds' = [] \<or> target' = []" "\<not> use_stemmer"
    using that(2) vs assms(5) update_empty_batch [OF that(1)]
      output_fill_nothing [OF dict_init_values]
    by (simp add: rouge_score_def)
  from 1 2 show ?thesis by blast
qed

theorem lsum_without_splitter_witness:
  "\<not> nltk_available nltk_missing \<and>
   set (keys_tuple (KeyTuple [''rouge1'', ''rougeLsum''])) \<subseteq>
     set [''rouge1'', ''rouge2'', ''rouge3'', ''rouge4'', ''rouge5'', ''rouge6'',
          ''rouge7'', ''rouge8'', ''rouge9'', ''rougeL'', ''rougeLsum''] \<and>
   ''rougeLsum'' \<in> set (keys_tuple (KeyTuple [''rouge1'', ''rougeLsum''])) \<and>
   normalize_shape (PredStr ''a'') (TargetStr ''b'') = ([''a''], [[''b'']]) \<and>
   rouge_score exact_ops nltk_missing (PredStr ''a'') (TargetStr ''b'') ''avg'' False
       (KeyTuple [''rouge1'', ''rougeLsum''])
     = Inl (ModuleNotFoundError lsum_message) \<and>
   normalize_shape (PredList []) (TargetList []) = ([], []) \<and>
   (\<exists>output. rouge_score exact_ops nltk_missing (PredList []) (TargetList []) ''avg'' False
       (KeyTuple [''rouge1'', ''rougeLsum'']) = Inr output)"
  using lsum_without_splitter [of nltk_missing "KeyTuple [''rouge1'', ''rougeLsum'']"
      "PredStr ''a''" "TargetStr ''b''" "[''a'']" "[[''b'']]" exact_ops "''avg''" False]
    lsum_without_splitter [of nltk_missing "KeyTuple [''rouge1'', ''rougeLsum'']"
      "PredList []" "TargetList []" "[]" "[]" exact_ops "''avg''" False]
  by (simp add: nltk_missing_def keys_tuple_def normalize_shape_def)

subsection \<open>The example of the documentation\<close>

lemma documentation_example_installed:
  "rouge_score exact_ops nltk_installed (PredStr ''My name is John'') (TargetStr ''Is your name John'')
       ''best'' False (KeyTuple [''rouge1'', ''rouge2'', ''rougeL'', ''rougeLsum''])
     = Inr [(''rouge1_fmeasure'', Num (3 / 4)), (''rouge1_precision'', Num (3 / 4)),
            (''rouge1_recall'', Num (3 / 4)),
            (''rouge2_fmeasure'', Num 0), (''rouge2_precision'', Num 0),
            (''rouge2_recall'', Num 0),
            (''rougeL_fmeasure'', Num (1 / 2)), (''rougeL_precision'', Num (1 / 2)),
            (''rougeL_recall'', Num (1 / 2)),
            (''rougeLsum_fmeasure'', Num (1 / 2)), (''rougeLsum_precision'', Num (1 / 2)),
            (''rougeLsum_recall'', Num (1 / 2))]"
  by code_simp

text \<open>
  Claim C2: for the prediction \<open>My name is John\<close>, the target \<open>Is your name John\<close>, the
  keys \<open>rouge1\<close>, \<open>rouge2\<close>, \<open>rougeL\<close>, \<open>rougeLsum\<close> and accumulation \<open>best\<close>, with
  \<open>nltk\<close> installed and a splitter that finds one sentence in either text, every field
  of \<open>rouge1\<close> is 0.75, every field of \<open>rouge2\<close> is 0 and every field of \<open>rougeL\<close> and
  of \<open>rougeLsum\<close> is 0.5. The arithmetic is the one without rounding; these quotients,
  products and sums of halves and quarters are exact in binary floating point too.
\<close>

theorem documentation_example:
  assumes "nltk_available env"
    and "sent_tokenize env ''My name is John'' = [''My name is John'']"
    and "sent_tokenize env ''Is your name John'' = [''Is your name John'']"
  shows "rouge_score exact_ops env (PredStr ''My name is John'') (TargetStr ''Is your name John'')
       ''best'' False (KeyTuple [''rouge1'', ''rouge2'', ''rougeL'', ''rougeLsum''])
     = Inr [(''rouge1_fmeasure'', Num (3 / 4)), (''rouge1_precision'', Num (3 / 4)),
            (''rouge1_recall'', Num (3 / 4)),
            (''rouge2_fmeasure'', Num 0), (''rouge2_precision'', Num 0),
            (''rouge2_recall'', Num 0),
            (''rougeL_fmeasure'', Num (1 / 2)), (''rougeL_precision'', Num (1 / 2)),
            (''rougeL_recall'', Num (1 / 2)),
            (''rougeLsum_fmeasure'', Num (1 / 2)), (''rougeLsum_precision'', Num (1 / 2)),
            (''rougeLsum_recall'', Num (1 / 2))]"
proof -
  have a1: "add_newline_to_end_of_each_sentence env ''My name is John'' =
      add_newline_to_end_of_each_sentence nltk_installed ''My name is John''"
    using assms(1,2)
    by (simp add: add_newline_to_end_of_each_sentence_def nltk_installed_def one_sentence_def)
  have a2: "add_newline_to_end_of_each_sentence env ''Is your name John'' =
      add_newline_to_end_of_each_sentence nltk_installed ''Is your name John''"
    using assms(1,3)
    by (simp add: add_newline_to_end_of_each_sentence_def nltk_installed_def one_sentence_def)
  have r: "reference_step exact_ops env None ks p pl st ''Is your name John'' =
      reference_step exact_ops nltk_installed None ks p pl st ''Is your name John''" for ks p pl st
    unfolding reference_step_def target_tokens_Lsum_def a2 ..
  have e: "example_step exact_ops env None ks ''best'' res (''My name is John'', [''Is your name John'']) =
      example_step exact_ops nltk_installed None ks ''best'' res
        (''My name is John'', [''Is your name John''])" for ks res
    unfolding example_step_def prod.case a1 for_loop.simps r ..
  have u: "rouge_score_update exact_ops env [''My name is John''] [[''Is your name John'']] ks ''best'' None =
      rouge_score_update exact_ops nltk_installed [''My name is John''] [[''Is your name John'']] ks
        ''best'' None" for ks
    unfolding rouge_score_update_def zip.simps list.case for_loop.simps e ..
  have n: "normalize_shape (PredStr ''My name is John'') (TargetStr ''Is your name John'') =
      ([''My name is John''], [[''Is your name John'']])"
    by (simp add: normalize_shape_def)
  have "rouge_score exact_ops env (PredStr ''My name is John'') (TargetStr ''Is your name John'')
       ''best'' False (KeyTuple [''rouge1'', ''rouge2'', ''rougeL'', ''rougeLsum''])
     = rouge_score exact_ops nltk_installed (PredStr ''My name is John'') (TargetStr ''Is your name John'')
       ''best'' False (KeyTuple [''rouge1'', ''rouge2'', ''rougeL'', ''rougeLsum''])"
    unfolding rouge_score_def n prod.case by (simp add: u split: sum.splits)
  then show ?thesis
    by (simp only: documentation_example_installed)
qed

theorem documentation_example_witness:
  "nltk_available nltk_installed \<and>
   sent_tokenize nltk_installed ''My name is John'' = [''My name is John''] \<and>
   sent_tokenize nltk_installed ''Is your name John'' = [''Is your name John''] \<and>
   rouge_score exact_ops nltk_installed (PredStr ''My name is John'') (TargetStr ''Is your name John'')
       ''best'' False (KeyTuple [''rouge1'', ''rouge2'', ''rougeL'', ''rougeLsum''])
     = Inr [(''rouge1_fmeasure'', Num (3 / 4)), (''rouge1_precision'', Num (3 / 4)),
            (''rouge1_recall'', Num (3 / 4)),
            (''rouge2_fmeasure'', Num 0), (''rouge2_precision'', Num 0),
            (''rouge2_recall'', Num 0),
            (''rougeL_fmeasure'', Num (1 / 2)), (''rougeL_precision'', Num (1 / 2)),
            (''rougeL_recall'', Num (1 / 2)),
            (''rougeLsum_fmeasure'', Num (1 / 2)), (''rougeLsum_precision'', Num (1 / 2)),
            (''rougeLsum_recall'', Num (1 / 2))]"
proof -
  have h: "nltk_available nltk_installed"
    "sent_tokenize nltk_installed ''My name is John'' = [''My name is John'']"
    "sent_tokenize nltk_installed ''Is your name John'' = [''Is your name John'']"
    by (simp_all add: nltk_installed_def one_sentence_def)
  from h documentation_example [OF h] show ?thesis by blast
qed

subsection \<open>The count that the scorers divide is at most both lengths\<close>

lemma foldl_invariant:
  assumes "P s" and "\<And>s x. P s \<Longrightarrow> x \<in> set xs \<Longrightarrow> P (f s x)"
  shows "P (foldl f s xs)"
  using assms by (induction xs arbitrary: s) auto

lemma lcs_cell_bounded:
  assumes b: "lcs_bounded m n LCS"
    and i: "1 \<le> i" "i \<le> m" and j: "1 \<le> j" "j \<le> n"
  shows "lcs_bounded m n (lcs_cell p t i LCS j)"
proof -
  define v where "v = (if t ! (i - 1) = p ! (j - 1) then LCS ! (i - 1) ! (j - 1) + 1
                       else max (LCS ! (i - 1) ! j) (LCS ! i ! (j - 1)))"
  have c: "lcs_cell p t i LCS j = LCS[i := (LCS ! i)[j := v]]"
    by (simp add: lcs_cell_def v_def)
  from b have len: "length LCS = m + 1"
    and rowlen: "\<And>i. i \<le> m \<Longrightarrow> length (LCS ! i) = n + 1"
    and cell: "\<And>i j. i \<le> m \<Longrightarrow> j \<le> n \<Longrightarrow> LCS ! i ! j \<le> min i j"
    by (simp_all add: lcs_bounded_def)
  from i j have "LCS ! (i - 1) ! (j - 1) \<le> min (i - 1) (j - 1)" by (intro cell) simp_all
  moreover from i j have "LCS ! (i - 1) ! j \<le> min (i - 1) j" by (intro cell) simp_all
  moreover from i j have "LCS ! i ! (j - 1) \<le> min i (j - 1)" by (intro cell) simp_all
  ultimately have v: "v \<le> min i j" using i j unfolding v_def by (simp del: One_nat_def) linarith
  show ?thesis
    unfolding c lcs_bounded_def
    using len rowlen cell i j v by (auto simp: nth_list_update)
qed

lemma lcs_row_bounded:
  assumes "lcs_bounded m (length p) LCS" and "1 \<le> i" and "i \<le> m"
  shows "lcs_bounded m (length p) (lcs_row p t LCS i)"
  unfolding lcs_row_def
  by (rule foldl_invariant) (use assms in \<open>auto intro: lcs_cell_bounded\<close>)

lemma lcs_table_bounded:
  "lcs_bounded (length t) (length p)
     (foldl (lcs_row p t) (replicate (length t + 1) (replicate (length p + 1) 0))
        [1..<length t + 1])"
proof (rule foldl_invariant)
  show "lcs_bounded (length t) (length p)
      (replicate (length t + 1) (replicate (length p + 1) 0))"
    unfolding lcs_bounded_def by (simp del: replicate.simps)
next
  fix s x
  assume "lcs_bounded (length t) (length p) s" and "x \<in> set [1..<length t + 1]"
  then show "lcs_bounded (length t) (length p) (lcs_row p t s x)"
    by (intro lcs_row_bounded) auto
qed

lemma lcs_le: "lcs pred_tokens target_tokens \<le> min (length pred_tokens) (length target_tokens)"
proof -
  define T where "T = foldl (lcs_row pred_tokens target_tokens)
      (replicate (length target_tokens + 1) (replicate (length pred_tokens + 1) 0))
      [1..<length target_tokens + 1]"
  have b: "lcs_bounded (length target_tokens) (length pred_tokens) T"
    unfolding T_def by (rule lcs_table_bounded)
  then have l1: "length T = length target_tokens + 1"
    and l2: "length (T ! length target_tokens) = length pred_tokens + 1"
    by (simp_all add: lcs_bounded_def)
  from l1 have "T \<noteq> []" by auto
  then have "last T = T ! length target_tokens" using l1 by (simp add: last_conv_nth)
  moreover from l2 have "T ! length target_tokens \<noteq> []" by auto
  then have "last (T ! length target_tokens) = T ! length target_tokens ! length pred_tokens"
    using l2 by (simp add: last_conv_nth)
  moreover from b have "T ! length target_tokens ! length pred_tokens
      \<le> min (length target_tokens) (length pred_tokens)"
    by (simp add: lcs_bounded_def)
  ultimately show ?thesis
    unfolding lcs_def Let_def T_def [symmetric] by simp
qed

lemma counter_incr_keys:
  "map fst (counter_incr c k) = (if k \<in> fst ` set c then map fst c else map fst c @ [k])"
  by (induction c k rule: counter_incr.induct) auto

lemma counter_incr_distinct: "distinct (map fst c) \<Longrightarrow> distinct (map fst (counter_incr c k))"
  by (simp add: counter_incr_keys)

lemma create_ngrams_distinct: "distinct (map fst (create_ngrams tokens n))"
  unfolding create_ngrams_def by (rule foldl_invariant) (simp_all add: counter_incr_distinct)

lemma counter_get_keys:
  "distinct (map fst c) \<Longrightarrow> map (counter_get c) (map fst c) = map snd c"
proof (induction c)
  case Nil
  then show ?case by simp
next
  case (Cons a c)
  obtain k v where a: "a = (k, v)" by (cases a)
  from Cons.prems a have nk: "k \<notin> fst ` set c" and d: "distinct (map fst c)" by auto
  have "map (counter_get (a # c)) (map fst c) = map (counter_get c) (map fst c)"
    using nk by (auto simp: counter_get_def a)
  with Cons.IH [OF d] show ?case by (simp add: a counter_get_def)
qed

lemma counter_get_missing: "w \<notin> fst ` set c \<Longrightarrow> counter_get c w = 0"
  by (simp add: counter_get_def map_of_eq_None_iff [THEN iffD2])

lemma counter_get_sum:
  assumes "distinct ws" and "distinct (map fst c)"
  shows "sum_list (map (counter_get c) ws) \<le> sum_list (map snd c)"
proof -
  have "sum_list (map (counter_get c) ws) = sum (counter_get c) (set ws)"
    using assms(1) by (simp add: sum_list_distinct_conv_sum_set)
  also have "\<dots> = sum (counter_get c) (set ws \<inter> fst ` set c)"
    by (rule sum.mono_neutral_right) (auto simp: counter_get_missing)
  also have "\<dots> \<le> sum (counter_get c) (fst ` set c)"
    by (rule sum_mono2) auto
  also have "\<dots> = sum_list (map (counter_get c) (map fst c))"
    using assms(2) by (simp add: sum_list_distinct_conv_sum_set del: map_map)
  also have "\<dots> = sum_list (map snd c)"
    using assms(2) by (simp only: counter_get_keys)
  finally show ?thesis .
qed

lemma hits_le:
  fixes P T :: "('k \<times> nat) list"
  assumes "distinct (map fst P)" and "distinct (map fst T)"
  shows "sum_list (map (\<lambda>w. min (counter_get P w) (counter_get T w)) (map fst P))
      \<le> min (sum_list (map snd P)) (sum_list (map snd T))"
proof -
  let ?h = "sum_list (map (\<lambda>w. min (counter_get P w) (counter_get T w)) (map fst P))"
  have "?h \<le> sum_list (map (counter_get P) (map fst P))"
    by (rule sum_list_mono) simp
  also have "\<dots> = sum_list (map snd P)" using assms(1) by (simp only: counter_get_keys)
  finally have 1: "?h \<le> sum_list (map snd P)" .
  have "?h \<le> sum_list (map (counter_get T) (map fst P))"
    by (rule sum_list_mono) simp
  also have "\<dots> \<le> sum_list (map snd T)" using assms by (rule counter_get_sum)
  finally have 2: "?h \<le> sum_list (map snd T)" .
  from 1 2 show ?thesis by simp
qed

subsection \<open>Every score of a reference is a triple of numbers\<close>

lemma zero_score_dict: "zero_score = score_dict 0 0 0"
  by (simp add: zero_score_def score_dict_def)

lemma sign_preserving_exact: "sign_preserving exact_ops"
  by (auto simp: sign_preserving_def exact_ops_def add_nonneg_eq_0_iff)

lemma sign_preserving_quotient:
  "sign_preserving fl \<Longrightarrow> 0 \<le> a \<Longrightarrow> a \<le> b \<Longrightarrow> 0 < b \<Longrightarrow>
     \<exists>q. true_div fl a b = Inr q \<and> 0 \<le> q"
  unfolding sign_preserving_def by blast

lemma sign_preserving_sum:
  "sign_preserving fl \<Longrightarrow> 0 \<le> x \<Longrightarrow> 0 \<le> y \<Longrightarrow> fadd fl x y = 0 \<Longrightarrow> x = 0 \<and> y = 0"
  unfolding sign_preserving_def by blast

lemma compute_metrics_triple:
  assumes "sign_preserving fl" and "0 \<le> c" and "0 < pred_len" and "0 < target_len"
    and "c \<le> pred_len" and "c \<le> target_len"
  shows "\<exists>p r f. compute_metrics fl c pred_len target_len = Inr (score_dict p r f)"
proof -
  from sign_preserving_quotient [OF assms(1,2,5,3)]
  obtain p where p: "true_div fl c pred_len = Inr p" and "0 \<le> p" by blast
  from sign_preserving_quotient [OF assms(1,2,6,4)]
  obtain r where r: "true_div fl c target_len = Inr r" and "0 \<le> r" by blast
  note nn = \<open>0 \<le> p\<close> \<open>0 \<le> r\<close>
  have nz: "fadd fl p r \<noteq> 0" if "\<not> (p = r \<and> r = 0)"
  proof
    assume "fadd fl p r = 0"
    with assms(1) nn have "p = 0 \<and> r = 0" by (rule sign_preserving_sum)
    with that show False by simp
  qed
  have cm: "compute_metrics fl c pred_len target_len =
      (if p = r \<and> r = 0 then Inr (score_dict 0 0 0)
       else if fadd fl p r = 0 then Inl ZeroDivisionError
       else Inr (score_dict (tensor fl p) (tensor fl r)
                   (tensor fl (fdiv fl (fmul fl (fmul fl 2 p) r) (fadd fl p r)))))"
    using assms(3,4)
    by (simp add: compute_metrics_def Let_def p r score_dict_def zero_score_def)
  show ?thesis
  proof (cases "p = r \<and> r = 0")
    case True
    with cm show ?thesis by auto
  next
    case False
    with nz cm have "compute_metrics fl c pred_len target_len =
        Inr (score_dict (tensor fl p) (tensor fl r)
               (tensor fl (fdiv fl (fmul fl (fmul fl 2 p) r) (fadd fl p r))))"
      by simp
    then show ?thesis by blast
  qed
qed

lemma rouge_n_score_triple:
  assumes "sign_preserving fl"
  shows "\<exists>p r f. rouge_n_score fl pred target n = Inr (score_dict p r f)"
proof -
  define pred_ngrams where "pred_ngrams = create_ngrams pred n"
  define target_ngrams where "target_ngrams = create_ngrams target n"
  define a where "a = sum_list (map snd pred_ngrams)"
  define b where "b = sum_list (map snd target_ngrams)"
  define hits where "hits = sum_list (map (\<lambda>w. min (counter_get pred_ngrams w)
      (counter_get target_ngrams w)) (map fst pred_ngrams))"
  have "hits \<le> min a b"
    unfolding hits_def a_def b_def pred_ngrams_def target_ngrams_def
    by (rule hits_le) (rule create_ngrams_distinct)+
  then have "\<exists>p r f. compute_metrics fl (int hits) (int (max a 1)) (int (max b 1)) =
      Inr (score_dict p r f)"
    by (intro compute_metrics_triple [OF assms]) auto
  then have cm: "\<exists>p r f. (if a = 0 \<or> b = 0 then Inr (score_dict 0 0 0)
      else compute_metrics fl (int hits) (int (max a 1)) (int (max b 1))) = Inr (score_dict p r f)"
    by (cases "a = 0 \<or> b = 0") (simp_all only: if_True if_False, blast)
  show ?thesis
    unfolding rouge_n_score_def Let_def zero_score_dict
      pred_ngrams_def [symmetric] target_ngrams_def [symmetric]
      a_def [symmetric] b_def [symmetric] hits_def [symmetric]
    by (rule cm)
qed

lemma rouge_l_score_triple:
  assumes "sign_preserving fl"
  shows "\<exists>p r f. rouge_l_score fl pred target = Inr (score_dict p r f)"
proof (cases "length pred = 0 \<or> length target = 0")
  case True
  then show ?thesis
    unfolding rouge_l_score_def Let_def zero_score_dict by auto
next
  case False
  moreover have "lcs pred target \<le> min (length pred) (length target)" by (rule lcs_le)
  ultimately have "\<exists>p r f. compute_metrics fl (int (lcs pred target)) (int (length pred))
      (int (length target)) = Inr (score_dict p r f)"
    by (intro compute_metrics_triple [OF assms]) simp_all
  with False show ?thesis
    unfolding rouge_l_score_def Let_def by simp
qed

lemma key_score_triple:
  assumes "sign_preserving fl" and "k = StrKey ''Lsum'' \<longrightarrow> target_Lsum \<noteq> None"
  shows "\<exists>p r f. key_score fl pred pred_Lsum tgt target_Lsum k = Inr (score_dict p r f)"
proof (cases k)
  case (IntKey n)
  then show ?thesis by (simp add: key_score_def rouge_n_score_triple [OF assms(1)])
next
  case (StrKey s)
  show ?thesis
  proof (cases "s = ''Lsum''")
    case True
    with StrKey assms obtain t where "target_Lsum = Some t" by auto
    with StrKey True show ?thesis by (simp add: key_score_def rouge_l_score_triple [OF assms(1)])
  next
    case False
    with StrKey show ?thesis by (simp add: key_score_def rouge_l_score_triple [OF assms(1)])
  qed
qed

lemma target_tokens_Lsum_available:
  assumes "nltk_available env"
  shows "\<exists>t. target_tokens_Lsum env stemmer ks x = Inr t \<and> (StrKey ''Lsum'' \<in> set ks \<longrightarrow> t \<noteq> None)"
  using assms
  by (simp add: target_tokens_Lsum_def add_newline_to_end_of_each_sentence_def)

lemma reference_score_triple:
  assumes "sign_preserving fl" and "nltk_available env" and "k \<in> set ks"
  shows "\<exists>p r f. reference_score fl env stemmer ks pred_raw x k = Inr (score_dict p r f)"
proof -
  from assms(2) obtain t where t: "target_tokens_Lsum env stemmer ks x = Inr t"
    and l: "StrKey ''Lsum'' \<in> set ks \<longrightarrow> t \<noteq> None"
    using target_tokens_Lsum_available by blast
  from l assms(3) have "k = StrKey ''Lsum'' \<longrightarrow> t \<noteq> None" by auto
  from key_score_triple [OF assms(1) this] show ?thesis
    using assms(2) t
    by (simp add: reference_score_def add_newline_to_end_of_each_sentence_def)
qed

subsection \<open>The loops over the keys and over the references\<close>

lemma map_of_update:
  "map_of (AList.update k v d) k' = (if k' = k then Some v else map_of d k')"
  by (simp add: update_conv')

lemma map_of_dict_init_aux:
  "map_of (foldl (\<lambda>d k. AList.update k v d) d ks) k =
     (if k \<in> set ks then Some v else map_of d k)"
  by (induction ks arbitrary: d) (auto simp: map_of_update)

lemma map_of_dict_init: "map_of (dict_init ks v) k = (if k \<in> set ks then Some v else None)"
  by (simp add: dict_init_def map_of_dict_init_aux)

lemma distinct_dict_init_aux:
  "distinct (map fst d) \<Longrightarrow> distinct (map fst (foldl (\<lambda>d k. AList.update k v d) d ks))"
  by (induction ks arbitrary: d) (auto simp: distinct_update)

lemma distinct_dict_init: "distinct (map fst (dict_init ks v))"
  by (simp add: dict_init_def distinct_dict_init_aux)

lemma dict_append_Some:
  "map_of d k = Some l \<Longrightarrow> dict_append d k v = Inr (AList.update k (l @ [v]) d)"
  by (simp add: dict_append_def)

lemma key_loop:
  assumes "\<forall>k\<in>set ks. key_score fl pred pl tgt tls k = Inr (sc k)"
    and "\<forall>k\<in>set ks. map_of ra k \<noteq> None"
  shows "\<exists>ri' ra'. for_loop (key_step fl pred pl tgt tls) (ri, ra) ks = Inr (ri', ra')
     \<and> (\<forall>k. map_of ri' k = (if k \<in> set ks then Some (sc k) else map_of ri k))
     \<and> (\<forall>k. map_of ra' k =
           map_option (\<lambda>old. old @ replicate (count_list ks k) (sc k)) (map_of ra k))
     \<and> (distinct (map fst ra) \<longrightarrow> distinct (map fst ra'))"
  using assms
proof (induction ks arbitrary: ri ra)
  case Nil
  show ?case by (simp add: option.map_ident)
next
  case (Cons a ks)
  from Cons.prems(2) obtain l where l: "map_of ra a = Some l" by auto
  define ri1 where "ri1 = AList.update a (sc a) ri"
  define ra1 where "ra1 = AList.update a (l @ [sc a]) ra"
  have step: "key_step fl pred pl tgt tls (ri, ra) a = Inr (ri1, ra1)"
    using Cons.prems(1) l by (simp add: key_step_def dict_append_Some ri1_def ra1_def)
  have "\<forall>k\<in>set ks. map_of ra1 k \<noteq> None"
    using Cons.prems(2) by (simp add: ra1_def map_of_update)
  with Cons.IH [of ra1 ri1] Cons.prems(1)
  obtain ri' ra' where loop: "for_loop (key_step fl pred pl tgt tls) (ri1, ra1) ks = Inr (ri', ra')"
    and ri': "\<forall>k. map_of ri' k = (if k \<in> set ks then Some (sc k) else map_of ri1 k)"
    and ra': "\<forall>k. map_of ra' k =
           map_option (\<lambda>old. old @ replicate (count_list ks k) (sc k)) (map_of ra1 k)"
    and d: "distinct (map fst ra1) \<longrightarrow> distinct (map fst ra')"
    by auto
  have 1: "for_loop (key_step fl pred pl tgt tls) (ri, ra) (a # ks) = Inr (ri', ra')"
    using step loop by simp
  have 2: "map_of ri' k = (if k \<in> set (a # ks) then Some (sc k) else map_of ri k)" for k
    using ri' by (simp add: ri1_def map_of_update)
  have 3: "map_of ra' k =
      map_option (\<lambda>old. old @ replicate (count_list (a # ks) k) (sc k)) (map_of ra k)" for k
    using ra' l by (simp add: ra1_def map_of_update)
  have 4: "distinct (map fst ra) \<longrightarrow> distinct (map fst ra')"
    using d by (simp add: ra1_def distinct_update)
  from 1 2 3 4 show ?case by blast
qed

lemma reference_loop:
  assumes "\<forall>t\<in>set refs. target_tokens_Lsum env st ks t = Inr (tls t)"
    and "\<forall>t\<in>set refs. \<forall>k\<in>set ks.
           key_score fl pred pl (normalize_and_tokenize_text t st) (tls t) k = Inr (sc t k)"
    and "\<forall>k\<in>set ks. map_of ra k \<noteq> None"
  shows "\<exists>ri' ra' lrs.
       for_loop (reference_step fl env st ks pred pl) (ri, ra, lr) refs = Inr (ri', ra', lr @ lrs)
     \<and> length lrs = length refs
     \<and> (\<forall>j<length refs. \<forall>k\<in>set ks. map_of (lrs ! j) k = Some (sc (refs ! j) k))
     \<and> (\<forall>k. map_of ra' k =
           map_option (\<lambda>old. old @ concat (map (\<lambda>t. replicate (count_list ks k) (sc t k)) refs))
             (map_of ra k))
     \<and> (distinct (map fst ra) \<longrightarrow> distinct (map fst ra'))"
  using assms
proof (induction refs arbitrary: ri ra lr)
  case Nil
  show ?case by (simp add: option.map_ident)
next
  case (Cons t refs)
  from Cons.prems(1) have tl: "target_tokens_Lsum env st ks t = Inr (tls t)" by simp
  from Cons.prems(2) have
    "\<forall>k\<in>set ks. key_score fl pred pl (normalize_and_tokenize_text t st) (tls t) k = Inr (sc t k)"
    by simp
  from key_loop [OF this Cons.prems(3), of ri]
  obtain ri1 ra1 where
    kl: "for_loop (key_step fl pred pl (normalize_and_tokenize_text t st) (tls t)) (ri, ra) ks =
        Inr (ri1, ra1)"
    and ri1: "\<forall>k. map_of ri1 k = (if k \<in> set ks then Some (sc t k) else map_of ri k)"
    and ra1: "\<forall>k. map_of ra1 k =
           map_option (\<lambda>old. old @ replicate (count_list ks k) (sc t k)) (map_of ra k)"
    and d1: "distinct (map fst ra) \<longrightarrow> distinct (map fst ra1)"
    by blast
  have step: "reference_step fl env st ks pred pl (ri, ra, lr) t = Inr (ri1, ra1, lr @ [ri1])"
    by (simp add: reference_step_def tl kl)
  have p1: "\<forall>t\<in>set refs. target_tokens_Lsum env st ks t = Inr (tls t)"
    using Cons.prems(1) by simp
  have p2: "\<forall>t\<in>set refs. \<forall>k\<in>set ks.
           key_score fl pred pl (normalize_and_tokenize_text t st) (tls t) k = Inr (sc t k)"
    using Cons.prems(2) by simp
  have p3: "\<forall>k\<in>set ks. map_of ra1 k \<noteq> None"
    using Cons.prems(3) ra1 by simp
  from Cons.IH [OF p1 p2 p3, of ri1 "lr @ [ri1]"]
  obtain ri' ra' lrs where
    loop: "for_loop (reference_step fl env st ks pred pl) (ri1, ra1, lr @ [ri1]) refs =
        Inr (ri', ra', (lr @ [ri1]) @ lrs)"
    and len: "length lrs = length refs"
    and lrs: "\<forall>j<length refs. \<forall>k\<in>set ks. map_of (lrs ! j) k = Some (sc (refs ! j) k)"
    and ra': "\<forall>k. map_of ra' k =
           map_option (\<lambda>old. old @ concat (map (\<lambda>t. replicate (count_list ks k) (sc t k)) refs))
             (map_of ra1 k)"
    and d: "distinct (map fst ra1) \<longrightarrow> distinct (map fst ra')"
    by blast
  have 1: "for_loop (reference_step fl env st ks pred pl) (ri, ra, lr) (t # refs) =
      Inr (ri', ra', lr @ (ri1 # lrs))"
    using step loop by simp
  have 2: "length (ri1 # lrs) = length (t # refs)"
    using len by simp
  have 3: "map_of ((ri1 # lrs) ! j) k = Some (sc ((t # refs) ! j) k)"
    if "j < length (t # refs)" "k \<in> set ks" for j k
  proof (cases j)
    case 0
    with ri1 that(2) show ?thesis by simp
  next
    case (Suc j')
    with that lrs show ?thesis by simp
  qed
  have 4: "map_of ra' k =
      map_option (\<lambda>old. old @ concat (map (\<lambda>t. replicate (count_list ks k) (sc t k)) (t # refs)))
        (map_of ra k)" for k
    using ra' ra1 by (simp add: option.map_comp comp_def)
  have 5: "distinct (map fst ra) \<longrightarrow> distinct (map fst ra')"
    using d d1 by simp
  from 1 2 3 4 5 show ?case by blast
qed

subsection \<open>Accumulation \<open>best\<close>\<close>

lemma argmax_scan_first_max:
  "(argmax_scan b (Num v) i (map Num fs) = b \<and> (\<forall>x\<in>set fs. x \<le> v)) \<or>
   (\<exists>j<length fs. argmax_scan b (Num v) i (map Num fs) = i + j \<and> v < fs ! j \<and>
      (\<forall>x\<in>set fs. x \<le> fs ! j) \<and> (\<forall>j'<j. fs ! j' < fs ! j))"
proof (induction fs arbitrary: b v i)
  case Nil
  show ?case by simp
next
  case (Cons x xs)
  show ?case
  proof (cases "v < x")
    case True
    then have eq: "argmax_scan b (Num v) i (map Num (x # xs)) =
        argmax_scan i (Num x) (Suc i) (map Num xs)"
      by simp
    from Cons.IH [of i x "Suc i"] show ?thesis
    proof
      assume a: "argmax_scan i (Num x) (Suc i) (map Num xs) = i \<and> (\<forall>y\<in>set xs. y \<le> x)"
      have "0 < length (x # xs) \<and> argmax_scan b (Num v) i (map Num (x # xs)) = i + 0 \<and>
          v < (x # xs) ! 0 \<and> (\<forall>y\<in>set (x # xs). y \<le> (x # xs) ! 0) \<and>
          (\<forall>j'<0. (x # xs) ! j' < (x # xs) ! 0)"
        using a True eq by simp
      then show ?thesis by blast
    next
      assume "\<exists>j<length xs. argmax_scan i (Num x) (Suc i) (map Num xs) = Suc i + j \<and>
          x < xs ! j \<and> (\<forall>y\<in>set xs. y \<le> xs ! j) \<and> (\<forall>j'<j. xs ! j' < xs ! j)"
      then obtain j where j: "j < length xs"
        and r: "argmax_scan i (Num x) (Suc i) (map Num xs) = Suc i + j"
        and gt: "x < xs ! j" and mx: "\<forall>y\<in>set xs. y \<le> xs ! j"
        and fst: "\<forall>j'<j. xs ! j' < xs ! j"
        by blast
      have f': "(x # xs) ! j' < (x # xs) ! Suc j" if "j' < Suc j" for j'
        using that gt fst by (cases j') simp_all
      have "Suc j < length (x # xs) \<and>
          argmax_scan b (Num v) i (map Num (x # xs)) = i + Suc j \<and>
          v < (x # xs) ! Suc j \<and> (\<forall>y\<in>set (x # xs). y \<le> (x # xs) ! Suc j) \<and>
          (\<forall>j'<Suc j. (x # xs) ! j' < (x # xs) ! Suc j)"
        using j r gt mx True eq f' by auto
      then show ?thesis by blast
    qed
  next
    case False
    then have eq: "argmax_scan b (Num v) i (map Num (x # xs)) =
        argmax_scan b (Num v) (Suc i) (map Num xs)"
      by simp
    from Cons.IH [of b v "Suc i"] show ?thesis
    proof
      assume "argmax_scan b (Num v) (Suc i) (map Num xs) = b \<and> (\<forall>y\<in>set xs. y \<le> v)"
      with False eq show ?thesis by auto
    next
      assume "\<exists>j<length xs. argmax_scan b (Num v) (Suc i) (map Num xs) = Suc i + j \<and>
          v < xs ! j \<and> (\<forall>y\<in>set xs. y \<le> xs ! j) \<and> (\<forall>j'<j. xs ! j' < xs ! j)"
      then obtain j where j: "j < length xs"
        and r: "argmax_scan b (Num v) (Suc i) (map Num xs) = Suc i + j"
        and gt: "v < xs ! j" and mx: "\<forall>y\<in>set xs. y \<le> xs ! j"
        and fst: "\<forall>j'<j. xs ! j' < xs ! j"
        by blast
      from False gt have xlt: "x < xs ! j" by simp
      have f': "(x # xs) ! j' < (x # xs) ! Suc j" if "j' < Suc j" for j'
        using that xlt fst by (cases j') simp_all
      have "Suc j < length (x # xs) \<and>
          argmax_scan b (Num v) i (map Num (x # xs)) = i + Suc j \<and>
          v < (x # xs) ! Suc j \<and> (\<forall>y\<in>set (x # xs). y \<le> (x # xs) ! Suc j) \<and>
          (\<forall>j'<Suc j. (x # xs) ! j' < (x # xs) ! Suc j)"
        using j r gt mx xlt eq f' by auto
      then show ?thesis by blast
    qed
  qed
qed

lemma torch_argmax_first_max:
  assumes "fs \<noteq> []"
  shows "\<exists>i<length fs. torch_argmax (map Num fs) = Inr i \<and>
     (\<forall>j<length fs. fs ! j \<le> fs ! i) \<and> (\<forall>j<i. fs ! j < fs ! i)"
proof -
  from assms obtain v xs where fs: "fs = v # xs" by (cases fs) auto
  have t: "torch_argmax (map Num fs) = Inr (argmax_scan 0 (Num v) 1 (map Num xs))"
    by (simp add: fs torch_argmax_def)
  from argmax_scan_first_max [of 0 v 1 xs] show ?thesis
  proof
    assume a: "argmax_scan 0 (Num v) 1 (map Num xs) = 0 \<and> (\<forall>x\<in>set xs. x \<le> v)"
    have "fs ! j \<le> fs ! 0" if "j < length fs" for j
      using that a by (cases j) (simp_all add: fs)
    then have "0 < length fs \<and> torch_argmax (map Num fs) = Inr 0 \<and>
        (\<forall>j<length fs. fs ! j \<le> fs ! 0) \<and> (\<forall>j<0. fs ! j < fs ! 0)"
      using a t by (simp add: fs)
    then show ?thesis by blast
  next
    assume "\<exists>j<length xs. argmax_scan 0 (Num v) 1 (map Num xs) = 1 + j \<and> v < xs ! j \<and>
        (\<forall>x\<in>set xs. x \<le> xs ! j) \<and> (\<forall>j'<j. xs ! j' < xs ! j)"
    then obtain j where j: "j < length xs"
      and r: "argmax_scan 0 (Num v) 1 (map Num xs) = 1 + j"
      and gt: "v < xs ! j" and mx: "\<forall>x\<in>set xs. x \<le> xs ! j"
      and fst: "\<forall>j'<j. xs ! j' < xs ! j"
      by blast
    have le: "fs ! j' \<le> fs ! Suc j" if "j' < length fs" for j'
      using that gt mx by (cases j') (simp_all add: fs)
    have lt: "fs ! j' < fs ! Suc j" if "j' < Suc j" for j'
      using that gt fst by (cases j') (simp_all add: fs)
    have "Suc j < length fs \<and> torch_argmax (map Num fs) = Inr (Suc j) \<and>
        (\<forall>j'<length fs. fs ! j' \<le> fs ! Suc j) \<and> (\<forall>j'<Suc j. fs ! j' < fs ! Suc j)"
      using j r t le lt by (simp add: fs)
    then show ?thesis by blast
  qed
qed

lemma map_result_nth:
  assumes "\<forall>j<length xs. f (xs ! j) = Inr (g j)"
  shows "map_result f xs = Inr (map g [0..<length xs])"
  using assms
proof (induction xs arbitrary: g)
  case Nil
  show ?case by simp
next
  case (Cons x xs)
  from Cons.prems have 0: "f x = Inr (g 0)" by auto
  from Cons.prems have "\<forall>j<length xs. f (xs ! j) = Inr (g (Suc j))" by auto
  from Cons.IH [OF this] have "map_result f xs = Inr (map (\<lambda>j. g (Suc j)) [0..<length xs])" .
  with 0 show ?case by (simp add: map_upt_Suc del: upt_Suc)
qed

lemma append_loop:
  assumes "\<forall>k\<in>set ks. pick k = Some (sel k)"
    and "\<forall>k\<in>set ks. map_of results k \<noteq> None"
  shows "\<exists>results'.
       for_loop (\<lambda>results rouge_key.
           case pick rouge_key of None \<Rightarrow> Inl KeyError
           | Some s \<Rightarrow> dict_append results rouge_key s) results ks = Inr results'
     \<and> (\<forall>k. map_of results' k =
           map_option (\<lambda>old. old @ replicate (count_list ks k) (sel k)) (map_of results k))"
  using assms
proof (induction ks arbitrary: results)
  case Nil
  show ?case by (simp add: option.map_ident)
next
  case (Cons a ks)
  from Cons.prems(2) obtain l where l: "map_of results a = Some l" by auto
  define r1 where "r1 = AList.update a (l @ [sel a]) results"
  have "\<forall>k\<in>set ks. map_of r1 k \<noteq> None"
    using Cons.prems(2) by (simp add: r1_def map_of_update)
  with Cons.IH [of r1] Cons.prems(1)
  obtain results' where
    loop: "for_loop (\<lambda>results rouge_key.
           case pick rouge_key of None \<Rightarrow> Inl KeyError
           | Some s \<Rightarrow> dict_append results rouge_key s) r1 ks = Inr results'"
    and r': "\<forall>k. map_of results' k =
           map_option (\<lambda>old. old @ replicate (count_list ks k) (sel k)) (map_of r1 k)"
    by auto
  have 1: "for_loop (\<lambda>results rouge_key.
           case pick rouge_key of None \<Rightarrow> Inl KeyError
           | Some s \<Rightarrow> dict_append results rouge_key s) results (a # ks) = Inr results'"
    using Cons.prems(1) l loop by (simp add: dict_append_Some r1_def)
  have 2: "map_of results' k =
      map_option (\<lambda>old. old @ replicate (count_list (a # ks) k) (sel k)) (map_of results k)" for k
    using r' l by (simp add: r1_def map_of_update)
  from 1 2 show ?case by blast
qed

lemma fmeasure_of_score_dict:
  "map_of v k = Some (score_dict p r f) \<Longrightarrow> fmeasure_of k v = Inr (Num f)"
  by (simp add: fmeasure_of_def score_dict_def)

lemma accumulate_best_first_max:
  assumes "ks \<noteq> []" and "lrs \<noteq> []"
    and "\<forall>j<length lrs. \<forall>k\<in>set ks. map_of (lrs ! j) k = Some (score_dict (P j k) (R j k) (F j k))"
    and "\<forall>k\<in>set ks. map_of results k \<noteq> None"
  shows "\<exists>i<length lrs.
       (\<forall>j<length lrs. F j (hd ks) \<le> F i (hd ks))
     \<and> (\<forall>j<i. F j (hd ks) < F i (hd ks))
     \<and> (\<exists>results'. accumulate_best ks lrs results = Inr results'
          \<and> (\<forall>k. map_of results' k =
                map_option (\<lambda>old. old @ replicate (count_list ks k)
                                     (score_dict (P i k) (R i k) (F i k)))
                  (map_of results k)))"
proof -
  from assms(1) obtain k0 ks' where ks: "ks = k0 # ks'" by (cases ks) auto
  define fs where "fs = map (\<lambda>j. F j k0) [0..<length lrs]"
  have "\<forall>j<length lrs. fmeasure_of k0 (lrs ! j) = Inr (Num (F j k0))"
    using assms(3) by (auto simp: ks intro: fmeasure_of_score_dict)
  then have "map_result (fmeasure_of k0) lrs = Inr (map (\<lambda>j. Num (F j k0)) [0..<length lrs])"
    by (rule map_result_nth)
  then have mr: "map_result (fmeasure_of k0) lrs = Inr (map Num fs)"
    by (simp add: fs_def comp_def)
  have "fs \<noteq> []" using assms(2) by (simp add: fs_def)
  from torch_argmax_first_max [OF this]
  obtain i where i: "i < length lrs" and am: "torch_argmax (map Num fs) = Inr i"
    and mx: "\<forall>j<length lrs. F j k0 \<le> F i k0" and fst: "\<forall>j<i. F j k0 < F i k0"
    by (auto simp: fs_def)
  have pick: "\<forall>k\<in>set ks. map_of (lrs ! i) k = Some (score_dict (P i k) (R i k) (F i k))"
    using assms(3) i by simp
  from append_loop [OF pick assms(4)]
  obtain results' where
    loop: "for_loop (\<lambda>results rouge_key.
           case map_of (lrs ! i) rouge_key of None \<Rightarrow> Inl KeyError
           | Some s \<Rightarrow> dict_append results rouge_key s) results ks = Inr results'"
    and r': "\<forall>k. map_of results' k =
           map_option (\<lambda>old. old @ replicate (count_list ks k)
                                (score_dict (P i k) (R i k) (F i k))) (map_of results k)"
    by blast
  have "accumulate_best ks lrs results = Inr results'"
    using mr am i loop by (simp add: accumulate_best_def ks)
  with i mx fst r' show ?thesis
    unfolding ks list.sel by blast
qed

lemma example_references:
  assumes "sign_preserving fl" and "nltk_available env"
  shows "\<exists>sc ri' ra' lrs.
      (\<forall>t. \<forall>k\<in>set ks. reference_score fl env st ks pred_raw t k = Inr (sc t k)
               \<and> (\<exists>p r f. sc t k = score_dict p r f))
    \<and> for_loop (reference_step fl env st ks (normalize_and_tokenize_text pred_raw st)
          (normalize_and_tokenize_text (join_newline (sent_tokenize env pred_raw)) st))
        (dict_init ks [], dict_init ks [], []) refs = Inr (ri', ra', lrs)
    \<and> length lrs = length refs
    \<and> (\<forall>j<length refs. \<forall>k\<in>set ks. map_of (lrs ! j) k = Some (sc (refs ! j) k))
    \<and> (\<forall>k\<in>set ks. map_of ra' k =
          Some (concat (map (\<lambda>t. replicate (count_list ks k) (sc t k)) refs)))
    \<and> distinct (map fst ra')"
proof -
  define pred where "pred = normalize_and_tokenize_text pred_raw st"
  define pl where
    "pl = normalize_and_tokenize_text (join_newline (sent_tokenize env pred_raw)) st"
  define sc where "sc t k = projr (reference_score fl env st ks pred_raw t k)" for t k
  define tls where "tls t = projr (target_tokens_Lsum env st ks t)" for t
  have sc: "reference_score fl env st ks pred_raw t k = Inr (sc t k)
      \<and> (\<exists>p r f. sc t k = score_dict p r f)" if "k \<in> set ks" for t k
  proof -
    from reference_score_triple [OF assms that, of st pred_raw t]
    obtain p r f where "reference_score fl env st ks pred_raw t k = Inr (score_dict p r f)"
      by blast
    then show ?thesis unfolding sc_def by (intro conjI exI [of _ p] exI [of _ r] exI [of _ f]) simp_all
  qed
  have tls: "target_tokens_Lsum env st ks t = Inr (tls t)" for t
    using target_tokens_Lsum_available [OF assms(2), of st ks t] by (auto simp: tls_def)
  have ks: "key_score fl pred pl (normalize_and_tokenize_text t st) (tls t) k = Inr (sc t k)"
    if "k \<in> set ks" for t k
    using sc [OF that, of t] assms(2) tls [of t]
    by (simp add: reference_score_def add_newline_to_end_of_each_sentence_def pred_def pl_def)
  have a1: "\<forall>t\<in>set refs. target_tokens_Lsum env st ks t = Inr (tls t)"
    using tls by simp
  have a2: "\<forall>t\<in>set refs. \<forall>k\<in>set ks.
      key_score fl pred pl (normalize_and_tokenize_text t st) (tls t) k = Inr (sc t k)"
    using ks by simp
  have a3: "\<forall>k\<in>set ks. map_of (dict_init ks ([] :: score list)) k \<noteq> None"
    by (simp add: map_of_dict_init)
  from reference_loop [OF a1 a2 a3, of "dict_init ks []" "[]"]
  obtain ri' ra' lrs where
    loop: "for_loop (reference_step fl env st ks pred pl) (dict_init ks [], dict_init ks [], []) refs
        = Inr (ri', ra', lrs)"
    and len: "length lrs = length refs"
    and lrs: "\<forall>j<length refs. \<forall>k\<in>set ks. map_of (lrs ! j) k = Some (sc (refs ! j) k)"
    and ra': "\<forall>k. map_of ra' k =
        map_option (\<lambda>old. old @ concat (map (\<lambda>t. replicate (count_list ks k) (sc t k)) refs))
          (map_of (dict_init ks []) k)"
    and d: "distinct (map fst (dict_init ks ([] :: score list))) \<longrightarrow> distinct (map fst ra')"
    by auto
  have ra: "\<forall>k\<in>set ks. map_of ra' k =
      Some (concat (map (\<lambda>t. replicate (count_list ks k) (sc t k)) refs))"
    using ra' by (simp add: map_of_dict_init)
  have "distinct (map fst ra')"
    using d by (simp add: distinct_dict_init)
  with sc loop len lrs ra show ?thesis
    unfolding pred_def pl_def by blast
qed

lemma example_step_available:
  assumes "nltk_available env"
    and "for_loop (reference_step fl env st ks (normalize_and_tokenize_text pred_raw st)
          (normalize_and_tokenize_text (join_newline (sent_tokenize env pred_raw)) st))
        (dict_init ks [], dict_init ks [], []) refs = Inr (ri', ra', lrs)"
  shows "example_step fl env st ks accumulate results (pred_raw, refs) =
     (if accumulate = ''best'' then accumulate_best ks lrs results
      else if accumulate = ''avg'' then accumulate_avg fl ks ra' results
      else Inr results)"
  using assms
  by (simp add: example_step_def add_newline_to_end_of_each_sentence_def Let_def)

text \<open>The number in a field of a score dict.\<close>

lemma score_dict_fields:
  assumes "\<exists>p r f. s = score_dict p r f"
  shows "s = score_dict
      (case map_of s ''precision'' of Some (Num x) \<Rightarrow> x | _ \<Rightarrow> 0)
      (case map_of s ''recall'' of Some (Num x) \<Rightarrow> x | _ \<Rightarrow> 0)
      (case map_of s ''fmeasure'' of Some (Num x) \<Rightarrow> x | _ \<Rightarrow> 0)"
  using assms by (auto simp: score_dict_def)

text \<open>
  Claim C1: in accumulation \<open>best\<close>, for an example with at least one reference and a
  non-empty list of keys, the step of the example appends to the results of every key
  the score triple that one and the same reference \<open>i\<close> has for that key, where \<open>i\<close> is
  the first reference whose F-measure for the first key is maximal. The F-measures
  compared are the numbers in the triples, as the arithmetic has rounded them, and the
  statement holds for every sign-preserving arithmetic. (A key listed several times
  gets the triple appended once for each occurrence. The hypothesis on \<open>results\<close> is
  the invariant of the loop: it holds for the initial dict and after every step.)
\<close>

theorem best_mode_selection:
  assumes "sign_preserving fl"
    and "nltk_available env" and "target_raw \<noteq> []" and "rouge_keys_values \<noteq> []"
    and "\<forall>k\<in>set rouge_keys_values. map_of results k \<noteq> None"
  shows "\<exists>i P R F results'.
      i < length target_raw
    \<and> (\<forall>j<length target_raw. \<forall>k\<in>set rouge_keys_values.
          reference_score fl env stemmer rouge_keys_values pred_raw (target_raw ! j) k =
            Inr (score_dict (P j k) (R j k) (F j k)))
    \<and> (\<forall>j<length target_raw. F j (hd rouge_keys_values) \<le> F i (hd rouge_keys_values))
    \<and> (\<forall>j<i. F j (hd rouge_keys_values) < F i (hd rouge_keys_values))
    \<and> example_step fl env stemmer rouge_keys_values ''best'' results (pred_raw, target_raw) =
          Inr results'
    \<and> (\<forall>k\<in>set rouge_keys_values.
          map_of results' k =
            map_option (\<lambda>old. old @ replicate (count_list rouge_keys_values k)
                                 (score_dict (P i k) (R i k) (F i k)))
              (map_of results k)
          \<and> map_of results' k \<noteq> None)"
proof -
  from example_references [OF assms(1) assms(2), of rouge_keys_values stemmer pred_raw target_raw]
  obtain sc ri' ra' lrs where
    sc: "\<forall>t. \<forall>k\<in>set rouge_keys_values.
        reference_score fl env stemmer rouge_keys_values pred_raw t k = Inr (sc t k)
        \<and> (\<exists>p r f. sc t k = score_dict p r f)"
    and loop: "for_loop (reference_step fl env stemmer rouge_keys_values
          (normalize_and_tokenize_text pred_raw stemmer)
          (normalize_and_tokenize_text (join_newline (sent_tokenize env pred_raw)) stemmer))
        (dict_init rouge_keys_values [], dict_init rouge_keys_values [], []) target_raw =
        Inr (ri', ra', lrs)"
    and len: "length lrs = length target_raw"
    and lrs: "\<forall>j<length target_raw. \<forall>k\<in>set rouge_keys_values.
        map_of (lrs ! j) k = Some (sc (target_raw ! j) k)"
    by blast
  define P where
    "P j k = (case map_of (sc (target_raw ! j) k) ''precision'' of Some (Num x) \<Rightarrow> x | _ \<Rightarrow> 0)"
    for j k
  define R where
    "R j k = (case map_of (sc (target_raw ! j) k) ''recall'' of Some (Num x) \<Rightarrow> x | _ \<Rightarrow> 0)"
    for j k
  define F where
    "F j k = (case map_of (sc (target_raw ! j) k) ''fmeasure'' of Some (Num x) \<Rightarrow> x | _ \<Rightarrow> 0)"
    for j k
  have scd: "sc (target_raw ! j) k = score_dict (P j k) (R j k) (F j k)"
    if "k \<in> set rouge_keys_values" for j k
    unfolding P_def R_def F_def using sc that by (intro score_dict_fields) blast
  have refs: "\<forall>j<length target_raw. \<forall>k\<in>set rouge_keys_values.
      reference_score fl env stemmer rouge_keys_values pred_raw (target_raw ! j) k =
        Inr (score_dict (P j k) (R j k) (F j k))"
    using sc scd by simp
  have step: "example_step fl env stemmer rouge_keys_values ''best'' results (pred_raw, target_raw) =
      accumulate_best rouge_keys_values lrs results"
    using example_step_available [OF assms(2) loop] by simp
  have ne: "lrs \<noteq> []" using len assms(3) by auto
  have l: "\<forall>j<length lrs. \<forall>k\<in>set rouge_keys_values.
      map_of (lrs ! j) k = Some (score_dict (P j k) (R j k) (F j k))"
    using lrs scd len by simp
  from accumulate_best_first_max [OF assms(4) ne l assms(5)]
  obtain i results' where i: "i < length lrs"
    and mx: "\<forall>j<length lrs. F j (hd rouge_keys_values) \<le> F i (hd rouge_keys_values)"
    and fst: "\<forall>j<i. F j (hd rouge_keys_values) < F i (hd rouge_keys_values)"
    and best: "accumulate_best rouge_keys_values lrs results = Inr results'"
    and r': "\<forall>k. map_of results' k =
          map_option (\<lambda>old. old @ replicate (count_list rouge_keys_values k)
                               (score_dict (P i k) (R i k) (F i k)))
            (map_of results k)"
    by blast
  have r'': "\<forall>k\<in>set rouge_keys_values.
      map_of results' k =
        map_option (\<lambda>old. old @ replicate (count_list rouge_keys_values k)
                             (score_dict (P i k) (R i k) (F i k)))
          (map_of results k)
      \<and> map_of results' k \<noteq> None"
    using r' assms(5) by simp
  have "i < length target_raw
    \<and> (\<forall>j<length target_raw. \<forall>k\<in>set rouge_keys_values.
          reference_score fl env stemmer rouge_keys_values pred_raw (target_raw ! j) k =
            Inr (score_dict (P j k) (R j k) (F j k)))
    \<and> (\<forall>j<length target_raw. F j (hd rouge_keys_values) \<le> F i (hd rouge_keys_values))
    \<and> (\<forall>j<i. F j (hd rouge_keys_values) < F i (hd rouge_keys_values))
    \<and> example_step fl env stemmer rouge_keys_values ''best'' results (pred_raw, target_raw) =
          Inr results'
    \<and> (\<forall>k\<in>set rouge_keys_values.
          map_of results' k =
            map_option (\<lambda>old. old @ replicate (count_list rouge_keys_values k)
                                 (score_dict (P i k) (R i k) (F i k)))
              (map_of results k)
          \<and> map_of results' k \<noteq> None)"
    using i mx fst refs step best r'' len assms(5) by simp
  then show ?thesis
    apply (rule_tac x = i in exI)
    apply (rule_tac x = P in exI)
    apply (rule_tac x = R in exI)
    apply (rule_tac x = F in exI)
    apply (rule_tac x = results' in exI)
    apply assumption
    done
qed

theorem best_mode_selection_witness:
  "sign_preserving exact_ops \<and>
   nltk_available nltk_installed \<and> [''a c b'', ''a b c d''] \<noteq> [] \<and> [IntKey 1, IntKey 2] \<noteq> [] \<and>
   map_of (dict_init [IntKey 1, IntKey 2] ([] :: score list)) (IntKey 1) \<noteq> None \<and>
   map_of (dict_init [IntKey 1, IntKey 2] ([] :: score list)) (IntKey 2) \<noteq> None \<and>
   (\<exists>i P R F results'.
      i < length [''a c b'', ''a b c d'']
    \<and> (\<forall>j<length [''a c b'', ''a b c d'']. \<forall>k\<in>set [IntKey 1, IntKey 2].
          reference_score exact_ops nltk_installed None [IntKey 1, IntKey 2] ''a b c''
              ([''a c b'', ''a b c d''] ! j) k =
            Inr (score_dict (P j k) (R j k) (F j k)))
    \<and> (\<forall>j<length [''a c b'', ''a b c d''].
          F j (hd [IntKey 1, IntKey 2]) \<le> F i (hd [IntKey 1, IntKey 2]))
    \<and> (\<forall>j<i. F j (hd [IntKey 1, IntKey 2]) < F i (hd [IntKey 1, IntKey 2]))
    \<and> example_step exact_ops nltk_installed None [IntKey 1, IntKey 2] ''best''
          (dict_init [IntKey 1, IntKey 2] []) (''a b c'', [''a c b'', ''a b c d'']) =
          Inr results'
    \<and> (\<forall>k\<in>set [IntKey 1, IntKey 2].
          map_of results' k =
            map_option (\<lambda>old. old @ replicate (count_list [IntKey 1, IntKey 2] k)
                                 (score_dict (P i k) (R i k) (F i k)))
              (map_of (dict_init [IntKey 1, IntKey 2] []) k)
          \<and> map_of results' k \<noteq> None)) \<and>
   reference_score exact_ops nltk_installed None [IntKey 1, IntKey 2] ''a b c'' ''a c b'' (IntKey 1) =
     Inr (score_dict 1 1 1) \<and>
   reference_score exact_ops nltk_installed None [IntKey 1, IntKey 2] ''a b c'' ''a c b'' (IntKey 2) =
     Inr (score_dict 0 0 0) \<and>
   reference_score exact_ops nltk_installed None [IntKey 1, IntKey 2] ''a b c'' ''a b c d'' (IntKey 1) =
     Inr (score_dict 1 (3 / 4) (6 / 7)) \<and>
   reference_score exact_ops nltk_installed None [IntKey 1, IntKey 2] ''a b c'' ''a b c d'' (IntKey 2) =
     Inr (score_dict 1 (2 / 3) (4 / 5)) \<and>
   example_step exact_ops nltk_installed None [IntKey 1, IntKey 2] ''best''
       (dict_init [IntKey 1, IntKey 2] []) (''a b c'', [''a c b'', ''a b c d'']) =
     Inr [(IntKey 1, [score_dict 1 1 1]), (IntKey 2, [score_dict 0 0 0])]"
proof -
  have h1: "nltk_available nltk_installed" by (simp add: nltk_installed_def)
  have h2: "[''a c b'', ''a b c d''] \<noteq> []" by simp
  have h3: "[IntKey 1, IntKey 2] \<noteq> []" by simp
  have h4: "\<forall>k\<in>set [IntKey 1, IntKey 2].
      map_of (dict_init [IntKey 1, IntKey 2] ([] :: score list)) k \<noteq> None"
    by (simp add: map_of_dict_init)
  have v1: "reference_score exact_ops nltk_installed None [IntKey 1, IntKey 2] ''a b c'' ''a c b''
      (IntKey 1) = Inr (score_dict 1 1 1)" by code_simp
  have v2: "reference_score exact_ops nltk_installed None [IntKey 1, IntKey 2] ''a b c'' ''a c b''
      (IntKey 2) = Inr (score_dict 0 0 0)" by code_simp
  have v3: "reference_score exact_ops nltk_installed None [IntKey 1, IntKey 2] ''a b c'' ''a b c d''
      (IntKey 1) = Inr (score_dict 1 (3 / 4) (6 / 7))" by code_simp
  have v4: "reference_score exact_ops nltk_installed None [IntKey 1, IntKey 2] ''a b c'' ''a b c d''
      (IntKey 2) = Inr (score_dict 1 (2 / 3) (4 / 5))" by code_simp
  have v5: "example_step exact_ops nltk_installed None [IntKey 1, IntKey 2] ''best''
       (dict_init [IntKey 1, IntKey 2] []) (''a b c'', [''a c b'', ''a b c d'']) =
     Inr [(IntKey 1, [score_dict 1 1 1]), (IntKey 2, [score_dict 0 0 0])]" by code_simp
  note t = best_mode_selection [OF sign_preserving_exact h1 h2 h3 h4, of None "''a b c''"]
  from sign_preserving_exact h1 h2 h3 h4 have h: "sign_preserving exact_ops \<and>
      nltk_available nltk_installed \<and> [''a c b'', ''a b c d''] \<noteq> [] \<and>
      [IntKey 1, IntKey 2] \<noteq> [] \<and>
      map_of (dict_init [IntKey 1, IntKey 2] ([] :: score list)) (IntKey 1) \<noteq> None \<and>
      map_of (dict_init [IntKey 1, IntKey 2] ([] :: score list)) (IntKey 2) \<noteq> None"
    by simp
  from h t v1 v2 v3 v4 v5 show ?thesis by (intro conjI) (elim conjE, assumption)+
qed

text \<open>
  Rounding can make two F-measures equal. The references \<open>a b\<close> and \<open>a b c d\<close> of the
  prediction \<open>a b c\<close> have the F-measures 4/5 and 6/7 for the first key. Without
  rounding the second reference is chosen; in an arithmetic whose \<open>tensor\<close> rounds down
  to halves both are 1/2, and the first reference is chosen for every key.
\<close>

lemma sign_preserving_halves: "sign_preserving halves_ops"
  by (auto simp: sign_preserving_def halves_ops_def exact_ops_def add_nonneg_eq_0_iff)

lemma best_mode_rounding_tie:
  "example_step exact_ops nltk_installed None [IntKey 1, IntKey 2] ''best''
       (dict_init [IntKey 1, IntKey 2] []) (''a b c'', [''a b'', ''a b c d'']) =
     Inr [(IntKey 1, [score_dict 1 (3 / 4) (6 / 7)]), (IntKey 2, [score_dict 1 (2 / 3) (4 / 5)])] \<and>
   reference_score halves_ops nltk_installed None [IntKey 1, IntKey 2] ''a b c'' ''a b''
       (IntKey 1) = Inr (score_dict (1 / 2) 1 (1 / 2)) \<and>
   reference_score halves_ops nltk_installed None [IntKey 1, IntKey 2] ''a b c'' ''a b c d''
       (IntKey 1) = Inr (score_dict 1 (1 / 2) (1 / 2)) \<and>
   example_step halves_ops nltk_installed None [IntKey 1, IntKey 2] ''best''
       (dict_init [IntKey 1, IntKey 2] []) (''a b c'', [''a b'', ''a b c d'']) =
     Inr [(IntKey 1, [score_dict (1 / 2) 1 (1 / 2)]), (IntKey 2, [score_dict (1 / 2) 1 (1 / 2)])]"
  by code_simp

subsection \<open>Accumulation \<open>avg\<close>\<close>

lemma num_values_nums: "num_values (map Num xs) = Some xs"
  by (induction xs) simp_all

lemma tensor_mean_nums:
  "xs \<noteq> [] \<Longrightarrow> tensor_mean exact_ops (map Num xs) = Num (sum_list xs / real (length xs))"
  by (simp add: tensor_mean_def num_values_nums exact_ops_def)

lemma batch_add_score_dict:
  "foldl batch_add [(''precision'', ps), (''recall'', rs), (''fmeasure'', fs)] (score_dict p r f) =
     [(''precision'', ps @ [Num p]), (''recall'', rs @ [Num r]), (''fmeasure'', fs @ [Num f])]"
  by (simp add: batch_add_def score_dict_def)

lemma batch_add_first:
  "foldl batch_add [] (score_dict p r f) =
     [(''precision'', [Num p]), (''recall'', [Num r]), (''fmeasure'', [Num f])]"
  by (simp add: batch_add_def score_dict_def)

lemma score_batch_aux:
  "foldl (\<lambda>d metric. foldl batch_add d metric)
      [(''precision'', ps), (''recall'', rs), (''fmeasure'', fs)]
      (map (\<lambda>t. score_dict (p t) (r t) (f t)) ts) =
     [(''precision'', ps @ map Num (map p ts)),
      (''recall'', rs @ map Num (map r ts)),
      (''fmeasure'', fs @ map Num (map f ts))]"
  by (induction ts arbitrary: ps rs fs) (simp_all add: batch_add_score_dict)

lemma score_batch:
  assumes "ts \<noteq> []"
  shows "dict_metric_score_batch (map (\<lambda>t. score_dict (p t) (r t) (f t)) ts) =
     [(''precision'', map Num (map p ts)),
      (''recall'', map Num (map r ts)),
      (''fmeasure'', map Num (map f ts))]"
proof -
  from assms obtain t ts' where ts: "ts = t # ts'" by (cases ts) auto
  show ?thesis
    by (simp add: dict_metric_score_batch_def ts batch_add_first score_batch_aux)
qed

lemma mean_score_triples:
  assumes "ts \<noteq> []"
  shows "mean_score exact_ops (map (\<lambda>t. score_dict (p t) (r t) (f t)) ts) =
     score_dict (sum_list (map p ts) / real (length ts))
                (sum_list (map r ts) / real (length ts))
                (sum_list (map f ts) / real (length ts))"
proof -
  have ne: "map g ts \<noteq> []" for g :: "'a \<Rightarrow> real"
    using assms by simp
  show ?thesis
    unfolding mean_score_def score_batch [OF assms]
    using tensor_mean_nums [OF ne [of p]] tensor_mean_nums [OF ne [of r]]
      tensor_mean_nums [OF ne [of f]]
    by (simp add: score_dict_def)
qed

lemma sum_list_replicated:
  fixes g :: "'a \<Rightarrow> real"
  shows "sum_list (map g (concat (map (\<lambda>t. replicate c (x t)) refs))) =
     real c * sum_list (map (\<lambda>t. g (x t)) refs)"
  by (induction refs) (simp_all add: sum_list_replicate algebra_simps)

lemma length_replicated:
  "length (concat (map (\<lambda>t. replicate c (x t)) refs)) = c * length refs"
  by (induction refs) simp_all

lemma mean_replicated:
  fixes g :: "'a \<Rightarrow> real"
  assumes "0 < c"
  shows "sum_list (map g (concat (map (\<lambda>t. replicate c (x t)) refs)))
           / real (length (concat (map (\<lambda>t. replicate c (x t)) refs))) =
         sum_list (map (\<lambda>t. g (x t)) refs) / real (length refs)"
  using assms by (simp add: sum_list_replicated length_replicated)

lemma sum_list_by_index:
  fixes g :: "'a \<Rightarrow> real"
  shows "sum_list (map g refs) = (\<Sum>j<length refs. g (refs ! j))"
proof -
  have "sum_list (map g refs) = (\<Sum>j = 0..<length (map g refs). map g refs ! j)"
    by (rule sum_list_sum_nth)
  also have "\<dots> = (\<Sum>j<length refs. g (refs ! j))"
    by (simp add: atLeast0LessThan)
  finally show ?thesis .
qed

lemma new_result_avg_lookup:
  assumes "distinct (map fst xs)"
  shows "map_of (foldl (\<lambda>d (k, m). AList.update k (g m) d) d0 xs) k =
     (case map_of xs k of Some m \<Rightarrow> Some (g m) | None \<Rightarrow> map_of d0 k)"
  using assms
proof (induction xs arbitrary: d0)
  case Nil
  show ?case by simp
next
  case (Cons x xs)
  obtain a m where x: "x = (a, m)" by (cases x) auto
  from Cons.prems have d: "distinct (map fst xs)" and a: "a \<notin> fst ` set xs"
    by (simp_all add: x)
  from a have n: "map_of xs a = None" by (simp add: map_of_eq_None_iff)
  show ?case
    using Cons.IH [OF d, of "AList.update a (g m) d0"] n
    by (simp add: x map_of_update split: option.splits)
qed

lemma accumulate_avg_mean:
  assumes "distinct (map fst result_avg)"
    and "\<forall>k\<in>set ks. map_of result_avg k = Some (ms k)"
    and "\<forall>k\<in>set ks. map_of results k \<noteq> None"
  shows "\<exists>results'. accumulate_avg fl ks result_avg results = Inr results'
     \<and> (\<forall>k. map_of results' k =
           map_option (\<lambda>old. old @ replicate (count_list ks k) (mean_score fl (ms k)))
             (map_of results k))"
proof -
  define new where
    "new = foldl (\<lambda>d (rouge_key, metrics). AList.update rouge_key (mean_score fl metrics) d)
             (dict_init ks []) result_avg"
  have "\<forall>k\<in>set ks. map_of new k = Some (mean_score fl (ms k))"
    unfolding new_def using assms(2) by (simp add: new_result_avg_lookup [OF assms(1)])
  from append_loop [OF this assms(3)] show ?thesis
    unfolding accumulate_avg_def Let_def new_def [symmetric] .
qed

lemma concat_replicate_map:
  "concat (map (\<lambda>t. replicate c (h t)) refs) = map h (concat (map (\<lambda>t. replicate c t) refs))"
  by (induction refs) simp_all

lemma mean_score_references:
  assumes "refs \<noteq> []" and "0 < c"
  shows "mean_score exact_ops (concat (map (\<lambda>t. replicate c (score_dict (p t) (r t) (f t))) refs)) =
     score_dict ((\<Sum>j<length refs. p (refs ! j)) / real (length refs))
                ((\<Sum>j<length refs. r (refs ! j)) / real (length refs))
                ((\<Sum>j<length refs. f (refs ! j)) / real (length refs))"
proof -
  define ts where "ts = concat (map (\<lambda>t. replicate c t) refs)"
  have ne: "ts \<noteq> []"
    using assms by (cases refs) (auto simp: ts_def)
  have m: "sum_list (map g ts) / real (length ts) =
      (\<Sum>j<length refs. g (refs ! j)) / real (length refs)" for g :: "'a \<Rightarrow> real"
    unfolding ts_def using mean_replicated [OF assms(2), of g "\<lambda>t. t" refs]
    by (simp add: sum_list_by_index)
  have "concat (map (\<lambda>t. replicate c (score_dict (p t) (r t) (f t))) refs) =
      map (\<lambda>t. score_dict (p t) (r t) (f t)) ts"
    unfolding ts_def by (rule concat_replicate_map)
  then show ?thesis
    by (simp only: mean_score_triples [OF ne] m)
qed

text \<open>
  Claim C3: in accumulation \<open>avg\<close>, for an example with at least one reference, the step
  of the example appends to the results of every key a triple whose precision, recall
  and F-measure are each the arithmetic mean of that field over the triples that the
  references have for the key, in the arithmetic without rounding. (A key listed
  several times gets the triple appended once for each occurrence. The hypothesis on
  \<open>results\<close> is the invariant of the loop.)
\<close>

theorem avg_mode_mean:
  assumes "nltk_available env" and "target_raw \<noteq> []"
    and "\<forall>k\<in>set rouge_keys_values. map_of results k \<noteq> None"
  shows "\<exists>P R F results'.
      (\<forall>j<length target_raw. \<forall>k\<in>set rouge_keys_values.
          reference_score exact_ops env stemmer rouge_keys_values pred_raw (target_raw ! j) k =
            Inr (score_dict (P j k) (R j k) (F j k)))
    \<and> example_step exact_ops env stemmer rouge_keys_values ''avg'' results (pred_raw, target_raw) =
          Inr results'
    \<and> (\<forall>k\<in>set rouge_keys_values.
          map_of results' k =
            map_option (\<lambda>old. old @ replicate (count_list rouge_keys_values k)
                (score_dict ((\<Sum>j<length target_raw. P j k) / real (length target_raw))
                            ((\<Sum>j<length target_raw. R j k) / real (length target_raw))
                            ((\<Sum>j<length target_raw. F j k) / real (length target_raw))))
              (map_of results k)
          \<and> map_of results' k \<noteq> None)"
proof -
  from example_references [OF sign_preserving_exact assms(1), of rouge_keys_values stemmer pred_raw target_raw]
  obtain sc ri' ra' lrs where
    sc: "\<forall>t. \<forall>k\<in>set rouge_keys_values.
        reference_score exact_ops env stemmer rouge_keys_values pred_raw t k = Inr (sc t k)
        \<and> (\<exists>p r f. sc t k = score_dict p r f)"
    and loop: "for_loop (reference_step exact_ops env stemmer rouge_keys_values
          (normalize_and_tokenize_text pred_raw stemmer)
          (normalize_and_tokenize_text (join_newline (sent_tokenize env pred_raw)) stemmer))
        (dict_init rouge_keys_values [], dict_init rouge_keys_values [], []) target_raw =
        Inr (ri', ra', lrs)"
    and ra: "\<forall>k\<in>set rouge_keys_values. map_of ra' k =
        Some (concat (map (\<lambda>t. replicate (count_list rouge_keys_values k) (sc t k)) target_raw))"
    and d: "distinct (map fst ra')"
    by blast
  define p where
    "p k t = (case map_of (sc t k) ''precision'' of Some (Num x) \<Rightarrow> x | _ \<Rightarrow> 0)" for k t
  define r where
    "r k t = (case map_of (sc t k) ''recall'' of Some (Num x) \<Rightarrow> x | _ \<Rightarrow> 0)" for k t
  define f where
    "f k t = (case map_of (sc t k) ''fmeasure'' of Some (Num x) \<Rightarrow> x | _ \<Rightarrow> 0)" for k t
  define P where "P j k = p k (target_raw ! j)" for j k
  define R where "R j k = r k (target_raw ! j)" for j k
  define F where "F j k = f k (target_raw ! j)" for j k
  define mean where "mean k = score_dict
      ((\<Sum>j<length target_raw. P j k) / real (length target_raw))
      ((\<Sum>j<length target_raw. R j k) / real (length target_raw))
      ((\<Sum>j<length target_raw. F j k) / real (length target_raw))" for k
  have scd: "sc t k = score_dict (p k t) (r k t) (f k t)"
    if "k \<in> set rouge_keys_values" for t k
    unfolding p_def r_def f_def using sc that by (intro score_dict_fields) blast
  have refs: "\<forall>j<length target_raw. \<forall>k\<in>set rouge_keys_values.
      reference_score exact_ops env stemmer rouge_keys_values pred_raw (target_raw ! j) k =
        Inr (score_dict (P j k) (R j k) (F j k))"
    using sc scd by (simp add: P_def R_def F_def)
  have step: "example_step exact_ops env stemmer rouge_keys_values ''avg'' results (pred_raw, target_raw) =
      accumulate_avg exact_ops rouge_keys_values ra' results"
    using example_step_available [OF assms(1) loop] by simp
  have ms: "mean_score exact_ops (concat (map (\<lambda>t. replicate (count_list rouge_keys_values k) (sc t k))
      target_raw)) = mean k" if "k \<in> set rouge_keys_values" for k
  proof -
    from that have "count_list rouge_keys_values k \<noteq> 0"
      by (simp add: count_list_0_iff)
    then have c: "0 < count_list rouge_keys_values k" by simp
    have "(\<lambda>t. replicate (count_list rouge_keys_values k) (sc t k)) =
        (\<lambda>t. replicate (count_list rouge_keys_values k) (score_dict (p k t) (r k t) (f k t)))"
      using scd [OF that] by simp
    then show ?thesis
      using mean_score_references [OF assms(2) c, of "p k" "r k" "f k"]
      by (simp add: mean_def P_def R_def F_def)
  qed
  from accumulate_avg_mean [OF d ra assms(3)]
  obtain results' where
    avg: "accumulate_avg exact_ops rouge_keys_values ra' results = Inr results'"
    and r': "\<forall>k. map_of results' k =
        map_option (\<lambda>old. old @ replicate (count_list rouge_keys_values k)
            (mean_score exact_ops (concat (map (\<lambda>t. replicate (count_list rouge_keys_values k) (sc t k))
               target_raw))))
          (map_of results k)"
    by blast
  have r'': "\<forall>k\<in>set rouge_keys_values.
      map_of results' k =
        map_option (\<lambda>old. old @ replicate (count_list rouge_keys_values k) (mean k))
          (map_of results k)
      \<and> map_of results' k \<noteq> None"
    using r' ms assms(3) by simp
  have "(\<forall>j<length target_raw. \<forall>k\<in>set rouge_keys_values.
          reference_score exact_ops env stemmer rouge_keys_values pred_raw (target_raw ! j) k =
            Inr (score_dict (P j k) (R j k) (F j k)))
    \<and> example_step exact_ops env stemmer rouge_keys_values ''avg'' results (pred_raw, target_raw) =
          Inr results'
    \<and> (\<forall>k\<in>set rouge_keys_values.
          map_of results' k =
            map_option (\<lambda>old. old @ replicate (count_list rouge_keys_values k)
                (score_dict ((\<Sum>j<length target_raw. P j k) / real (length target_raw))
                            ((\<Sum>j<length target_raw. R j k) / real (length target_raw))
                            ((\<Sum>j<length target_raw. F j k) / real (length target_raw))))
              (map_of results k)
          \<and> map_of results' k \<noteq> None)"
    using refs step avg r'' assms(3) unfolding mean_def by simp
  then show ?thesis
    apply (rule_tac x = P in exI)
    apply (rule_tac x = R in exI)
    apply (rule_tac x = F in exI)
    apply (rule_tac x = results' in exI)
    apply assumption
    done
qed

theorem avg_mode_mean_witness:
  "nltk_available nltk_installed \<and> [''a'', ''a b''] \<noteq> [] \<and>
   map_of (dict_init [IntKey 1] ([] :: score list)) (IntKey 1) \<noteq> None \<and>
   (\<exists>P R F results'.
      (\<forall>j<length [''a'', ''a b'']. \<forall>k\<in>set [IntKey 1].
          reference_score exact_ops nltk_installed None [IntKey 1] ''a b c'' ([''a'', ''a b''] ! j) k =
            Inr (score_dict (P j k) (R j k) (F j k)))
    \<and> example_step exact_ops nltk_installed None [IntKey 1] ''avg'' (dict_init [IntKey 1] [])
          (''a b c'', [''a'', ''a b'']) = Inr results'
    \<and> (\<forall>k\<in>set [IntKey 1].
          map_of results' k =
            map_option (\<lambda>old. old @ replicate (count_list [IntKey 1] k)
                (score_dict ((\<Sum>j<length [''a'', ''a b'']. P j k) / real (length [''a'', ''a b'']))
                            ((\<Sum>j<length [''a'', ''a b'']. R j k) / real (length [''a'', ''a b'']))
                            ((\<Sum>j<length [''a'', ''a b'']. F j k) / real (length [''a'', ''a b'']))))
              (map_of (dict_init [IntKey 1] []) k)
          \<and> map_of results' k \<noteq> None)) \<and>
   reference_score exact_ops nltk_installed None [IntKey 1] ''a b c'' ''a'' (IntKey 1) =
     Inr (score_dict (1 / 3) 1 (1 / 2)) \<and>
   reference_score exact_ops nltk_installed None [IntKey 1] ''a b c'' ''a b'' (IntKey 1) =
     Inr (score_dict (2 / 3) 1 (4 / 5)) \<and>
   example_step exact_ops nltk_installed None [IntKey 1] ''avg'' (dict_init [IntKey 1] [])
       (''a b c'', [''a'', ''a b'']) =
     Inr [(IntKey 1, [score_dict (1 / 2) 1 (13 / 20)])]"
proof -
  have h1: "nltk_available nltk_installed" by (simp add: nltk_installed_def)
  have h2: "[''a'', ''a b''] \<noteq> []" by simp
  have h3: "\<forall>k\<in>set [IntKey 1]. map_of (dict_init [IntKey 1] ([] :: score list)) k \<noteq> None"
    by (simp add: map_of_dict_init)
  have v1: "reference_score exact_ops nltk_installed None [IntKey 1] ''a b c'' ''a'' (IntKey 1) =
     Inr (score_dict (1 / 3) 1 (1 / 2))" by code_simp
  have v2: "reference_score exact_ops nltk_installed None [IntKey 1] ''a b c'' ''a b'' (IntKey 1) =
     Inr (score_dict (2 / 3) 1 (4 / 5))" by code_simp
  have v3: "example_step exact_ops nltk_installed None [IntKey 1] ''avg'' (dict_init [IntKey 1] [])
       (''a b c'', [''a'', ''a b'']) =
     Inr [(IntKey 1, [score_dict (1 / 2) 1 (13 / 20)])]" by code_simp
  note t = avg_mode_mean [OF h1 h2 h3, of None "''a b c''"]
  from h1 h2 h3 have h: "nltk_available nltk_installed \<and> [''a'', ''a b''] \<noteq> [] \<and>
      map_of (dict_init [IntKey 1] ([] :: score list)) (IntKey 1) \<noteq> None"
    by simp
  from h t v1 v2 v3 show ?thesis by (intro conjI) (elim conjE, assumption)+
qed

end
